theory Spec2Isabelle
  imports Complex_Main "HOL-Library.Sublist"
begin

section \<open>Python strings\<close>

text \<open>
  A Python \<open>str\<close> is a sequence of Unicode code points; \<open>len\<close> counts code points.
  The bullet character U+2022 is the single code point 8226.
\<close>

type_synonym pystr = "nat list"

definition py_str :: "string \<Rightarrow> pystr" where
  "py_str s = map of_char s"

definition bullet :: pystr where
  "bullet = [8226]"

definition dash_space :: pystr where
  "dash_space = [45, 32]"

text \<open>
  \<open>s.count(sub)\<close>: the number of non-overlapping occurrences of \<open>sub\<close> in \<open>s\<close>,
  scanning from the left; after a match the scan resumes behind it. For the empty
  \<open>sub\<close> Python answers \<open>len(s) + 1\<close>.
\<close>

function str_count :: "pystr \<Rightarrow> pystr \<Rightarrow> nat" where
  "str_count s sub =
     (if sub = [] then length s + 1
      else if length s < length sub then 0
      else if take (length sub) s = sub then 1 + str_count (drop (length sub) s) sub
      else str_count (tl s) sub)"
  by pat_completeness auto
termination
proof (relation "measure (\<lambda>(s, sub). length s)")
  show "wf (measure (\<lambda>(s, sub). length s))"
    by simp
next
  fix s sub :: pystr
  assume "sub \<noteq> []" and "\<not> length s < length sub"
  then have "0 < length sub \<and> 0 < length s"
    by (cases sub; cases s) simp_all
  then show "((drop (length sub) s, sub), (s, sub)) \<in> measure (\<lambda>(s, sub). length s)"
    by simp
next
  fix s sub :: pystr
  assume "sub \<noteq> []" and "\<not> length s < length sub"
  then have "0 < length s"
    by (cases sub; cases s) simp_all
  then show "((tl s, sub), (s, sub)) \<in> measure (\<lambda>(s, sub). length s)"
    by simp
qed

text \<open>
  \<open>sub in s\<close>: \<open>sub\<close> occurs in \<open>s\<close> as a contiguous substring.
\<close>

fun str_contains :: "pystr \<Rightarrow> pystr \<Rightarrow> bool" where
  "str_contains [] sub = (sub = [])"
| "str_contains (c # cs) sub = (prefix sub (c # cs) \<or> str_contains cs sub)"

text \<open>
  \<open>re.sub(r'X+', ' ', s)\<close> for a character class \<open>X\<close>: a left-to-right scan that
  writes one space (code point 32) for every maximal run of characters of the class and
  copies every other character. The flag says whether the scan is inside a run.
\<close>

fun sub_scan :: "(nat \<Rightarrow> bool) \<Rightarrow> bool \<Rightarrow> pystr \<Rightarrow> pystr" where
  "sub_scan X in_run [] = []"
| "sub_scan X in_run (c # cs) =
     (if X c then (if in_run then sub_scan X True cs else 32 # sub_scan X True cs)
      else c # sub_scan X False cs)"

definition re_sub_runs :: "(nat \<Rightarrow> bool) \<Rightarrow> pystr \<Rightarrow> pystr" where
  "re_sub_runs X s = sub_scan X False s"

text \<open>\<open>s.strip()\<close>: drops the leading and the trailing whitespace.\<close>

definition strip :: "(nat \<Rightarrow> bool) \<Rightarrow> pystr \<Rightarrow> pystr" where
  "strip sp s = rev (dropWhile sp (rev (dropWhile sp s)))"

text \<open>
  \<open>s.split()\<close>: the maximal runs of non-whitespace characters, in order; never an
  empty token. \<open>cur\<close> is the token read so far.
\<close>

fun split_scan :: "(nat \<Rightarrow> bool) \<Rightarrow> pystr \<Rightarrow> pystr \<Rightarrow> pystr list" where
  "split_scan sp cur [] = (if cur = [] then [] else [cur])"
| "split_scan sp cur (c # cs) =
     (if sp c then (if cur = [] then split_scan sp [] cs else cur # split_scan sp [] cs)
      else split_scan sp (cur @ [c]) cs)"

definition split :: "(nat \<Rightarrow> bool) \<Rightarrow> pystr \<Rightarrow> pystr list" where
  "split sp s = split_scan sp [] s"

text \<open>
  \<open>s.splitlines()\<close>: the line boundaries of Python are LF, VT, FF, CR, CR LF (one
  boundary), FS, GS, RS, NEL (U+0085), LS (U+2028) and PS (U+2029). The boundaries are
  not part of the lines, and a boundary at the very end opens no further line.
\<close>

definition is_linebreak :: "nat \<Rightarrow> bool" where
  "is_linebreak c = (c \<in> {10, 11, 12, 13, 28, 29, 30, 133, 8232, 8233})"

fun splitlines_scan :: "pystr \<Rightarrow> pystr \<Rightarrow> pystr list" where
  "splitlines_scan cur [] = (if cur = [] then [] else [cur])"
| "splitlines_scan cur [c] =
     (if is_linebreak c then [cur] else [cur @ [c]])"
| "splitlines_scan cur (c # d # cs) =
     (if c = 13 \<and> d = 10 then cur # splitlines_scan [] cs
      else if is_linebreak c then cur # splitlines_scan [] (d # cs)
      else splitlines_scan (cur @ [c]) (d # cs))"

definition splitlines :: "pystr \<Rightarrow> pystr list" where
  "splitlines s = splitlines_scan [] s"

text \<open>\<open>str(n)\<close> for a non-negative integer: its decimal digits.\<close>

definition digit_char :: "nat \<Rightarrow> char" where
  "digit_char d = char_of (48 + d)"

fun str_of_nat :: "nat \<Rightarrow> string" where
  "str_of_nat n =
     (if n < 10 then [digit_char n] else str_of_nat (n div 10) @ [digit_char (n mod 10)])"

definition is_digit :: "char \<Rightarrow> bool" where
  "is_digit ch = ((48::nat) \<le> of_char ch \<and> of_char ch \<le> (57::nat))"

section \<open>The libraries the program calls\<close>

text \<open>
  The program delegates to the Python runtime and to third-party libraries. Their
  behaviour is not part of the repository, so it is a parameter of the model:
  \<^item> \<open>str_lower\<close>: \<open>str.lower()\<close>;
  \<^item> \<open>str_isupper\<close>: \<open>str.isupper()\<close>;
  \<^item> \<open>isspace\<close>: the Unicode whitespace test behind \<open>str.split()\<close>,
    \<open>str.strip()\<close> and the regular expression class \<open>\s\<close>;
  \<^item> \<open>isword\<close>: the regular expression class \<open>\w\<close> (its complement is \<open>\W\<close>);
  \<^item> \<open>partial_ratio\<close>: \<open>fuzz.partial_ratio\<close>, an integer similarity;
  \<^item> \<open>fitz_open\<close>: opening a byte stream as a PDF document: an exception (its
    message), or the document: its pages, each of which yields its text or raises on
    \<open>get_text()\<close>, and the exception that \<open>close()\<close> raises, if any;
  \<^item> \<open>encode\<close> and \<open>cos_sim\<close>: the sentence-embedding model and the cosine similarity
    of two embeddings.
\<close>

type_synonym exn = string

type_synonym document = "(exn + pystr) list \<times> exn option"

record pylib =
  str_lower :: "pystr \<Rightarrow> pystr"
  str_isupper :: "pystr \<Rightarrow> bool"
  isspace :: "nat \<Rightarrow> bool"
  isword :: "nat \<Rightarrow> bool"
  partial_ratio :: "pystr \<Rightarrow> pystr \<Rightarrow> int"
  fitz_open :: "nat list \<Rightarrow> exn + document"
  encode :: "pystr \<Rightarrow> rat list"
  cos_sim :: "rat list \<Rightarrow> rat list \<Rightarrow> rat"

section \<open>Python numbers\<close>

text \<open>
  A Python \<open>float\<close> is an IEEE 754 binary64 number; a finite one is modelled by its
  exact rational value. Every arithmetic operation returns the exact result rounded to
  the nearest binary64 number, ties to the even significand. \<open>scale_down\<close> and
  \<open>scale_up\<close> bring a positive value into the range of a 53-bit significand,
  \<open>2^52 \<le> s < 2^53\<close>, counting the binary exponent; the exponent stops at \<open>-1074\<close>,
  where the subnormal numbers begin. There is no overflow to infinity in the model:
  no value this program rounds exceeds 100.
\<close>

definition round_half_even :: "rat \<Rightarrow> int" where
  "round_half_even q =
     (let f = \<lfloor>q\<rfloor>; d = q - of_int f
      in if d < 1 / 2 then f
         else if 1 / 2 < d then f + 1
         else if even f then f else f + 1)"

definition pow2 :: "int \<Rightarrow> rat" where
  "pow2 e = (if 0 \<le> e then 2 ^ nat e else 1 / 2 ^ nat (- e))"

function scale_down :: "rat \<Rightarrow> int \<Rightarrow> rat \<times> int" where
  "scale_down q e = (if 2 ^ 53 \<le> q then scale_down (q / 2) (e + 1) else (q, e))"
  by pat_completeness auto
termination
proof (relation "measure (\<lambda>(q, e). nat \<lfloor>q\<rfloor>)")
  show "wf (measure (\<lambda>(q, e). nat \<lfloor>q\<rfloor>))"
    by simp
next
  fix q :: rat and e :: int
  assume big: "2 ^ 53 \<le> q"
  then have "2 \<le> q"
    by simp
  then have "q / 2 \<le> q - 1"
    by simp
  then have "\<lfloor>q / 2\<rfloor> < \<lfloor>q\<rfloor>"
    by linarith
  moreover have "0 < \<lfloor>q\<rfloor>"
    using \<open>2 \<le> q\<close> by linarith
  ultimately show "((q / 2, e + 1), (q, e)) \<in> measure (\<lambda>(q, e). nat \<lfloor>q\<rfloor>)"
    by simp
qed

function scale_up :: "rat \<Rightarrow> int \<Rightarrow> rat \<times> int" where
  "scale_up q e = (if q < 2 ^ 52 \<and> - 1074 < e then scale_up (2 * q) (e - 1) else (q, e))"
  by pat_completeness auto
termination
  by (relation "measure (\<lambda>(q, e). nat (e + 1074))") simp_all

definition round_to_double :: "rat \<Rightarrow> rat" where
  "round_to_double q =
     (if q = 0 then 0
      else (case scale_down \<bar>q\<bar> 0 of (q1, e1) \<Rightarrow>
            (case scale_up q1 e1 of (s, e) \<Rightarrow>
               sgn q * of_int (round_half_even s) * pow2 e)))"

text \<open>
  The values the score helpers compute with: an \<open>int\<close> or a \<open>float\<close>.
  \<^item> \<open>a / b\<close> on integers is true division: the correctly rounded quotient, or
    \<open>ZeroDivisionError\<close>;
  \<^item> \<open>x * k\<close> with an integer \<open>k\<close> stays an integer for an integer \<open>x\<close> and is
    the rounded product with \<open>float(k)\<close> for a float \<open>x\<close>;
  \<^item> \<open>round(x)\<close> is \<open>x\<close> itself for an integer and the nearest integer, ties to
    even, for a float.
\<close>

datatype py_error = ZeroDivisionError

datatype pynum = PyInt int | PyFloat rat

definition int_truediv :: "int \<Rightarrow> int \<Rightarrow> py_error + pynum" where
  "int_truediv a b =
     (if b = 0 then Inl ZeroDivisionError
      else Inr (PyFloat (round_to_double (of_int a / of_int b))))"

fun num_mul_int :: "pynum \<Rightarrow> int \<Rightarrow> pynum" where
  "num_mul_int (PyInt a) k = PyInt (a * k)"
| "num_mul_int (PyFloat x) k = PyFloat (round_to_double (x * round_to_double (of_int k)))"

fun py_round :: "pynum \<Rightarrow> int" where
  "py_round (PyInt a) = a"
| "py_round (PyFloat x) = round_half_even x"

section \<open>PDF text extraction\<close>

text \<open>
  \<^verbatim>\<open>
  def extract_text_from_pdf(uploaded_file):
      try:
          pdf_file = uploaded_file.read()
          doc = fitz.open(stream=pdf_file, filetype="pdf")
          text = ""
          for page in doc:
              text += page.get_text()
          doc.close()
          return re.sub(r'\s+', ' ', text).strip()
      except Exception as e:
          st.error(f"Error reading PDF: {e}")
          return ""
  \<close>
  The function returns a string on every path; the exception is shown in the user
  interface by \<open>st.error\<close>. The model returns the string together with the messages
  passed to \<open>st.error\<close>. The upload is given by what \<open>uploaded_file.read()\<close> does:
  it raises or returns the bytes. Every step inside \<open>try\<close> that raises ends in the
  \<open>except\<close> branch (\<open>pdf_error\<close>).
\<close>

definition pdf_error :: "exn \<Rightarrow> pystr \<times> string list" where
  "pdf_error e = ([], [''Error reading PDF: '' @ e])"

fun page_loop :: "(exn + pystr) list \<Rightarrow> pystr \<Rightarrow> exn + pystr" where
  "page_loop [] text = Inr text"
| "page_loop (page # pages) text =
     (case page of
        Inl e \<Rightarrow> Inl e
      | Inr page_text \<Rightarrow> page_loop pages (text @ page_text))"

definition extract_text_from_pdf :: "pylib \<Rightarrow> exn + nat list \<Rightarrow> pystr \<times> string list" where
  "extract_text_from_pdf L uploaded_file =
     (case uploaded_file of
        Inl e \<Rightarrow> pdf_error e
      | Inr pdf_file \<Rightarrow>
          (case fitz_open L pdf_file of
             Inl e \<Rightarrow> pdf_error e
           | Inr (pages, closing) \<Rightarrow>
               (case page_loop pages [] of
                  Inl e \<Rightarrow> pdf_error e
                | Inr text \<Rightarrow>
                    (case closing of
                       Some e \<Rightarrow> pdf_error e
                     | None \<Rightarrow> (strip (isspace L) (re_sub_runs (isspace L) text), [])))))"

section \<open>Text preprocessing\<close>

text \<open>
  \<^verbatim>\<open>
  def preprocess_text(text):
      text = text.lower()
      text = re.sub(r'\W+', ' ', text)
      return text.strip()
  \<close>
\<close>

definition preprocess_text :: "pylib \<Rightarrow> pystr \<Rightarrow> pystr" where
  "preprocess_text L text =
     strip (isspace L) (re_sub_runs (\<lambda>c. \<not> isword L c) (str_lower L text))"

section \<open>Skills matching\<close>

text \<open>
  \<^verbatim>\<open>
  def extract_skills(resume_text, job_desc, skills_list, threshold=70):
      resume_text = resume_text.lower()
      job_desc = job_desc.lower()
      matched = []
      missing = []
      for skill in skills_list:
          score_resume = fuzz.partial_ratio(skill.lower(), resume_text)
          score_jd = fuzz.partial_ratio(skill.lower(), job_desc)
          if score_resume >= threshold:
              matched.append(skill)
          elif score_jd >= threshold and score_resume < threshold:
              missing.append(skill)
      return matched, missing
  \<close>
\<close>

fun skills_loop ::
  "pylib \<Rightarrow> pystr \<Rightarrow> pystr \<Rightarrow> int \<Rightarrow> pystr list \<Rightarrow> pystr list \<Rightarrow> pystr list
     \<Rightarrow> pystr list \<times> pystr list" where
  "skills_loop L resume_text job_desc threshold [] matched missing = (matched, missing)"
| "skills_loop L resume_text job_desc threshold (skill # skills) matched missing =
     (let score_resume = partial_ratio L (str_lower L skill) resume_text;
          score_jd = partial_ratio L (str_lower L skill) job_desc
      in if score_resume \<ge> threshold
         then skills_loop L resume_text job_desc threshold skills (matched @ [skill]) missing
         else if score_jd \<ge> threshold \<and> score_resume < threshold
         then skills_loop L resume_text job_desc threshold skills matched (missing @ [skill])
         else skills_loop L resume_text job_desc threshold skills matched missing)"

definition extract_skills ::
  "pylib \<Rightarrow> pystr \<Rightarrow> pystr \<Rightarrow> pystr list \<Rightarrow> int \<Rightarrow> pystr list \<times> pystr list" where
  "extract_skills L resume_text job_desc skills_list threshold =
     skills_loop L (str_lower L resume_text) (str_lower L job_desc) threshold skills_list [] []"

definition default_threshold :: int where
  "default_threshold = 70"

section \<open>Formatting checks\<close>

text \<open>
  \<^verbatim>\<open>
  def check_formatting(text):
      issues = []
      if text.count("\<bullet>") < 3 and text.count("- ") < 3:
          issues.append("Use more bullet points for better readability.")
      if any(line.isupper() and len(line) > 10 for line in text.splitlines()):
          issues.append("Avoid using ALL CAPS excessively.")
      long_lines = [line for line in text.splitlines() if len(line) > 160]
      if long_lines:
          issues.append(f"{len(long_lines)} lines are too long. Try breaking them up.")
      return issues
  \<close>
  The issues are ASCII texts and are written as Isabelle strings.
\<close>

definition bullet_issue :: string where
  "bullet_issue = ''Use more bullet points for better readability.''"

definition caps_issue :: string where
  "caps_issue = ''Avoid using ALL CAPS excessively.''"

definition long_issue :: "nat \<Rightarrow> string" where
  "long_issue n = str_of_nat n @ '' lines are too long. Try breaking them up.''"

definition long_lines :: "pystr \<Rightarrow> pystr list" where
  "long_lines text = filter (\<lambda>line. length line > 160) (splitlines text)"

definition check_formatting :: "pylib \<Rightarrow> pystr \<Rightarrow> string list" where
  "check_formatting L text =
     (if str_count text bullet < 3 \<and> str_count text dash_space < 3
      then [bullet_issue] else [])
     @ (if list_ex (\<lambda>line. str_isupper L line \<and> length line > 10) (splitlines text)
        then [caps_issue] else [])
     @ (if long_lines text \<noteq> []
        then [long_issue (length (long_lines text))] else [])"

section \<open>Score helpers\<close>


text \<open>
  \<^verbatim>\<open>
  def calculate_style_score(text):
      bullets = text.count("\<bullet>") + text.count("- ")
      if bullets >= 10: return 100
      elif bullets >= 5: return 75
      elif bullets >= 3: return 50
      else: return 25
  \<close>
\<close>

definition calculate_style_score :: "pystr \<Rightarrow> int" where
  "calculate_style_score text =
     (let bullets = str_count text bullet + str_count text dash_space
      in if bullets \<ge> 10 then 100
         else if bullets \<ge> 5 then 75
         else if bullets \<ge> 3 then 50
         else 25)"

text \<open>
  \<^verbatim>\<open>
  def calculate_ats_score(text, job_desc):
      keywords = [word for word in job_desc.lower().split() if len(word) > 4]
      matches = sum(1 for k in keywords if k in text.lower())
      density = matches / len(keywords) if keywords else 0
      return min(100, round(density * 100))
  \<close>
\<close>

definition keywords_of :: "pylib \<Rightarrow> pystr \<Rightarrow> pystr list" where
  "keywords_of L job_desc =
     filter (\<lambda>word. length word > 4) (split (isspace L) (str_lower L job_desc))"

definition matches_of :: "pylib \<Rightarrow> pystr \<Rightarrow> pystr list \<Rightarrow> int" where
  "matches_of L text keywords =
     sum_list (map (\<lambda>k. 1) (filter (\<lambda>k. str_contains (str_lower L text) k) keywords))"

definition calculate_ats_score :: "pylib \<Rightarrow> pystr \<Rightarrow> pystr \<Rightarrow> py_error + int" where
  "calculate_ats_score L text job_desc =
     (let keywords = keywords_of L job_desc;
          matches = matches_of L text keywords
      in case (if keywords \<noteq> [] then int_truediv matches (int (length keywords))
               else Inr (PyInt 0)) of
           Inl e \<Rightarrow> Inl e
         | Inr density \<Rightarrow> Inr (min 100 (py_round (num_mul_int density 100))))"

text \<open>
  \<^verbatim>\<open>
  def calculate_section_score(text):
      sections = ['education', 'experience', 'skills', 'projects', 'summary', 'certifications']
      count = sum(1 for sec in sections if sec in text.lower())
      return round((count / len(sections)) * 100)
  \<close>
\<close>

definition sections :: "pystr list" where
  "sections =
     map py_str [''education'', ''experience'', ''skills'', ''projects'', ''summary'',
                 ''certifications'']"

definition calculate_section_score :: "pylib \<Rightarrow> pystr \<Rightarrow> py_error + int" where
  "calculate_section_score L text =
     (let count = sum_list (map (\<lambda>sec. 1)
                    (filter (\<lambda>sec. str_contains (str_lower L text) sec) sections))
      in case int_truediv count (int (length sections)) of
           Inl e \<Rightarrow> Inl e
         | Inr ratio \<Rightarrow> Inr (py_round (num_mul_int ratio 100)))"

section \<open>Resume to job description comparison\<close>

text \<open>
  \<^verbatim>\<open>
  def compare_resume_with_job(resume_text, job_desc, skills_list):
      resume_clean = preprocess_text(resume_text)
      jd_clean = preprocess_text(job_desc)
      if not resume_clean or not jd_clean:
          return None, [], []
      resume_embedding = model.encode("passage: " + resume_clean, convert_to_tensor=True)
      jd_embedding = model.encode("query: " + jd_clean, convert_to_tensor=True)
      similarity = util.cos_sim(resume_embedding, jd_embedding).item()
      matched, missing = extract_skills(resume_text, job_desc, skills_list)
      return similarity, matched, missing
  \<close>
\<close>

definition compare_resume_with_job ::
  "pylib \<Rightarrow> pystr \<Rightarrow> pystr \<Rightarrow> pystr list \<Rightarrow> rat option \<times> pystr list \<times> pystr list" where
  "compare_resume_with_job L resume_text job_desc skills_list =
     (let resume_clean = preprocess_text L resume_text;
          jd_clean = preprocess_text L job_desc
      in if resume_clean = [] \<or> jd_clean = [] then (None, [], [])
         else
           (let resume_embedding = encode L (py_str ''passage: '' @ resume_clean);
                jd_embedding = encode L (py_str ''query: '' @ jd_clean);
                similarity = cos_sim L resume_embedding jd_embedding;
                (matched, missing) =
                   extract_skills L resume_text job_desc skills_list default_threshold
            in (Some similarity, matched, missing)))"

section \<open>The claims' vocabulary\<close>

text \<open>
  The number of positions at which \<open>sub\<close> occurs in \<open>s\<close>, overlapping
  occurrences included, and the bullet-style markers of a text: the occurrences of the
  bullet character plus the occurrences of a hyphen followed by a space.
\<close>

fun occurrences :: "pystr \<Rightarrow> pystr \<Rightarrow> nat" where
  "occurrences [] sub = 0"
| "occurrences (c # cs) sub = (if prefix sub (c # cs) then 1 else 0) + occurrences cs sub"

definition bullet_markers :: "pystr \<Rightarrow> nat" where
  "bullet_markers text = occurrences text bullet + occurrences text dash_space"

text \<open>The step function of the style score, as the specification words it.\<close>

definition style_of_bullets :: "nat \<Rightarrow> int" where
  "style_of_bullets b =
     (if b \<ge> 10 then 100
      else if 5 \<le> b \<and> b < 10 then 75
      else if 3 \<le> b \<and> b < 5 then 50
      else 25)"

text \<open>
  The similarity of a skill against a text, as \<open>extract_skills\<close> computes it: the
  partial ratio of the lowercased skill and the lowercased text.
\<close>

definition similarity :: "pylib \<Rightarrow> pystr \<Rightarrow> pystr \<Rightarrow> int" where
  "similarity L skill text = partial_ratio L (str_lower L skill) (str_lower L text)"

text \<open>
  The ATS score from the number \<open>m\<close> of matched keywords and the number \<open>n\<close> of
  keywords, \<open>min(100, round(m / n * 100))\<close> in Python's arithmetic, and the same
  without the clamp.
\<close>

definition ats_unclamped :: "nat \<Rightarrow> nat \<Rightarrow> int" where
  "ats_unclamped m n =
     (if n = 0 then 0
      else round_half_even
             (round_to_double (round_to_double (of_nat m / of_nat n) * 100)))"

definition ats_of_counts :: "nat \<Rightarrow> nat \<Rightarrow> int" where
  "ats_of_counts m n = min 100 (ats_unclamped m n)"

definition matched_keywords :: "pylib \<Rightarrow> pystr \<Rightarrow> pystr \<Rightarrow> pystr list" where
  "matched_keywords L text job_desc =
     filter (\<lambda>k. str_contains (str_lower L text) k) (keywords_of L job_desc)"

text \<open>The canonical section names that occur in the lowercased text.\<close>

definition present_sections :: "pylib \<Rightarrow> pystr \<Rightarrow> pystr list" where
  "present_sections L text = filter (\<lambda>sec. str_contains (str_lower L text) sec) sections"

text \<open>\<open>calculate_ats_score\<close> with the clamp \<open>min(100, \<cdot>)\<close> removed.\<close>

definition calculate_ats_score_unclamped :: "pylib \<Rightarrow> pystr \<Rightarrow> pystr \<Rightarrow> py_error + int" where
  "calculate_ats_score_unclamped L text job_desc =
     (let keywords = keywords_of L job_desc;
          matches = matches_of L text keywords
      in case (if keywords \<noteq> [] then int_truediv matches (int (length keywords))
               else Inr (PyInt 0)) of
           Inl e \<Rightarrow> Inl e
         | Inr density \<Rightarrow> Inr (py_round (num_mul_int density 100)))"

text \<open>
  What the preprocessor needs of \<open>str.lower()\<close>. A character is \<^emph>\<open>lowercased\<close> when
  \<open>lower\<close> leaves the one-character string unchanged. This says less than that the
  character is a lowercase letter: digits, the underscore and the capital letters that
  have no lowercase form are lowercased in this sense.
  \<^item> \<open>lower_output_lowercased\<close>: every character of a result of \<open>lower\<close> is lowercased;
  \<^item> \<open>lower_keeps_lowercased\<close>: \<open>lower\<close> leaves a string of lowercased characters
    unchanged, and the space is lowercased.
  Both hold of Python's \<open>str.lower()\<close>, which maps character by character (the
  capital sigma by its context) to characters that it maps to themselves.
\<close>

definition lowercased :: "pylib \<Rightarrow> nat \<Rightarrow> bool" where
  "lowercased L c = (str_lower L [c] = [c])"

definition lower_output_lowercased :: "pylib \<Rightarrow> bool" where
  "lower_output_lowercased L = (\<forall>s. \<forall>c \<in> set (str_lower L s). lowercased L c)"

definition lower_keeps_lowercased :: "pylib \<Rightarrow> bool" where
  "lower_keeps_lowercased L =
     (lowercased L 32 \<and> (\<forall>s. (\<forall>c \<in> set s. lowercased L c) \<longrightarrow> str_lower L s = s))"

text \<open>
  A string is \<open>run_free\<close> for a character class when each of its characters of the
  class is a space that stands last or before a character outside the class: the
  strings that \<open>re.sub(r'X+', ' ', \<cdot>)\<close> leaves unchanged.
\<close>

fun run_free :: "(nat \<Rightarrow> bool) \<Rightarrow> pystr \<Rightarrow> bool" where
  "run_free X [] = True"
| "run_free X [c] = (if X c then c = 32 else True)"
| "run_free X (c # d # cs) =
     ((if X c then c = 32 \<and> \<not> X d else True) \<and> run_free X (d # cs))"

section \<open>A stand-in for the libraries\<close>

text \<open>
  To run the model on concrete inputs the library parameters are instantiated with an
  ASCII stand-in: \<open>lower\<close>, \<open>isupper\<close>, whitespace and word characters as Python has
  them on ASCII; a partial ratio that is 100 for a substring and 0 otherwise; a
  document format in which a stream that starts with \<open>%\<close> is a document of one page
  holding the remaining bytes as its text (a page with a zero byte raises on
  \<open>get_text()\<close>), and any other stream cannot be opened; an
  embedding that only records the length of a text.
\<close>

definition ascii_lower :: "nat \<Rightarrow> nat" where
  "ascii_lower c = (if 65 \<le> c \<and> c \<le> 90 then c + 32 else c)"

definition ascii_isupper :: "pystr \<Rightarrow> bool" where
  "ascii_isupper s =
     (list_ex (\<lambda>c. 65 \<le> c \<and> c \<le> 90) s \<and> list_all (\<lambda>c. c < 97 \<or> 122 < c) s)"

definition ascii_isspace :: "nat \<Rightarrow> bool" where
  "ascii_isspace c = (c \<in> {9, 10, 11, 12, 13, 28, 29, 30, 31, 32})"

definition ascii_isword :: "nat \<Rightarrow> bool" where
  "ascii_isword c =
     ((48 \<le> c \<and> c \<le> 57) \<or> (65 \<le> c \<and> c \<le> 90) \<or> c = 95 \<or> (97 \<le> c \<and> c \<le> 122))"

definition toy_fitz_open :: "nat list \<Rightarrow> exn + document" where
  "toy_fitz_open bs =
     (case bs of
        [] \<Rightarrow> Inl ''cannot open empty document''
      | b # rest \<Rightarrow>
          if b \<noteq> 37 then Inl ''no objects found''
          else if 0 \<in> set rest then Inr ([Inl ''cannot read page''], None)
          else Inr ([Inr rest], None))"

definition toy_lib :: pylib where
  "toy_lib =
     \<lparr> str_lower = map ascii_lower,
       str_isupper = ascii_isupper,
       isspace = ascii_isspace,
       isword = ascii_isword,
       partial_ratio = (\<lambda>a b. if str_contains b a then 100 else 0),
       fitz_open = toy_fitz_open,
       encode = (\<lambda>s. [of_nat (length s)]),
       cos_sim = (\<lambda>a b. if a = b then 1 else 0) \<rparr>"

text \<open>
  The stand-in with a PDF library that opens every stream as the document \<open>d\<close>.
\<close>

definition doc_lib :: "document \<Rightarrow> pylib" where
  "doc_lib d = toy_lib \<lparr> fitz_open := (\<lambda>pdf_file. Inr d) \<rparr>"

text \<open>
  The stand-in extended by U+2102, the double-struck capital C (code point 8450). In
  Python it is a word character, \<open>str.isupper()\<close> holds of it, and it has no
  lowercase form: \<open>str.lower()\<close> returns it unchanged.
\<close>

definition capital_isupper :: "pystr \<Rightarrow> bool" where
  "capital_isupper s =
     (list_ex (\<lambda>c. (65 \<le> c \<and> c \<le> 90) \<or> c = 8450) s
      \<and> list_all (\<lambda>c. c < 97 \<or> 122 < c) s)"

definition capital_lib :: pylib where
  "capital_lib =
     toy_lib \<lparr> str_isupper := capital_isupper,
               isword := (\<lambda>c. ascii_isword c \<or> c = 8450) \<rparr>"

section \<open>Counting occurrences\<close>

declare str_count.simps [simp del]

lemma str_count_short: "sub \<noteq> [] \<Longrightarrow> length s < length sub \<Longrightarrow> str_count s sub = 0"
  by (subst str_count.simps) simp

lemma str_count_hit:
  "sub \<noteq> [] \<Longrightarrow> prefix sub s \<Longrightarrow> str_count s sub = 1 + str_count (drop (length sub) s) sub"
  by (subst str_count.simps) (auto simp: prefix_def)

lemma str_count_miss:
  assumes "sub \<noteq> []" and "\<not> prefix sub (c # cs)"
  shows "str_count (c # cs) sub = str_count cs sub"
proof (cases "length (c # cs) < length sub")
  case True
  then have "length cs < length sub"
    by simp
  with assms True show ?thesis
    by (simp add: str_count_short)
next
  case False
  have "take (length sub) (c # cs) \<noteq> sub"
  proof
    assume "take (length sub) (c # cs) = sub"
    then have "prefix sub (c # cs)"
      by (metis take_is_prefix)
    with assms show False
      by simp
  qed
  with assms False show ?thesis
    by (subst str_count.simps) simp
qed

lemma str_count_char: "str_count s [c] = occurrences s [c]"
proof (induction s)
  case Nil
  show ?case by (simp add: str_count_short)
next
  case (Cons d s)
  show ?case
  proof (cases "d = c")
    case True
    then show ?thesis
      using Cons by (simp add: str_count_hit)
  next
    case False
    then show ?thesis
      using Cons by (simp add: str_count_miss)
  qed
qed

lemma str_count_pair:
  assumes "a \<noteq> b"
  shows "str_count s [a, b] = occurrences s [a, b]"
proof (induction s rule: length_induct)
  case (1 s)
  show ?case
  proof (cases s)
    case Nil
    then show ?thesis by (simp add: str_count_short)
  next
    case (Cons c cs)
    show ?thesis
    proof (cases "prefix [a, b] s")
      case True
      then obtain r where s: "s = a # b # r"
        by (auto simp: prefix_def)
      have "str_count s [a, b] = 1 + str_count r [a, b]"
        using str_count_hit [of "[a, b]" s] True s by simp
      also have "str_count r [a, b] = occurrences r [a, b]"
        using 1 s by simp
      finally show ?thesis
        using s assms by simp
    next
      case False
      have "str_count s [a, b] = str_count cs [a, b]"
        using False Cons str_count_miss [of "[a, b]" c cs] by simp
      also have "\<dots> = occurrences cs [a, b]"
        using 1 Cons by simp
      finally show ?thesis
        using False Cons by simp
    qed
  qed
qed

lemma bullets_eq_markers:
  "str_count text bullet + str_count text dash_space = bullet_markers text"
  by (simp add: bullet_markers_def bullet_def dash_space_def str_count_char str_count_pair)

section \<open>Decimal rendering\<close>

declare str_of_nat.simps [simp del]

lemma digit_char_is_digit: "d < 10 \<Longrightarrow> is_digit (digit_char d)"
  by (simp add: is_digit_def digit_char_def)

lemma digit_char_inj: "d < 10 \<Longrightarrow> d' < 10 \<Longrightarrow> digit_char d = digit_char d' \<Longrightarrow> d = d'"
proof -
  assume a: "d < 10" "d' < 10" "digit_char d = digit_char d'"
  then have "(of_char (digit_char d) :: nat) = of_char (digit_char d')"
    by simp
  with a show ?thesis
    by (simp add: digit_char_def)
qed

lemma str_of_nat_digits: "str_of_nat n \<noteq> [] \<and> list_all is_digit (str_of_nat n)"
proof (induction n rule: str_of_nat.induct)
  case (1 n)
  show ?case
  proof (cases "n < 10")
    case True
    then show ?thesis
      by (subst (1 2) str_of_nat.simps) (simp add: digit_char_is_digit)
  next
    case False
    then show ?thesis
      using 1 by (subst (1 2) str_of_nat.simps) (simp add: digit_char_is_digit)
  qed
qed

lemma str_of_nat_inj: "str_of_nat n = str_of_nat m \<Longrightarrow> n = m"
proof (induction n arbitrary: m rule: str_of_nat.induct)
  case (1 n)
  show ?case
  proof (cases "n < 10")
    case True
    then have sn: "str_of_nat n = [digit_char n]"
      by (subst str_of_nat.simps) simp
    show ?thesis
    proof (cases "m < 10")
      case mt: True
      then have "str_of_nat m = [digit_char m]"
        by (subst str_of_nat.simps) simp
      with sn "1.prems" True mt show ?thesis
        by (auto dest: digit_char_inj)
    next
      case mf: False
      then have "str_of_nat m = str_of_nat (m div 10) @ [digit_char (m mod 10)]"
        by (subst str_of_nat.simps) simp
      with sn "1.prems" str_of_nat_digits [of "m div 10"] show ?thesis
        by (cases "str_of_nat (m div 10)") auto
    qed
  next
    case False
    then have sn: "str_of_nat n = str_of_nat (n div 10) @ [digit_char (n mod 10)]"
      by (subst str_of_nat.simps) simp
    show ?thesis
    proof (cases "m < 10")
      case mt: True
      then have "str_of_nat m = [digit_char m]"
        by (subst str_of_nat.simps) simp
      with sn "1.prems" str_of_nat_digits [of "n div 10"] show ?thesis
        by (cases "str_of_nat (n div 10)") auto
    next
      case mf: False
      then have sm: "str_of_nat m = str_of_nat (m div 10) @ [digit_char (m mod 10)]"
        by (subst str_of_nat.simps) simp
      from sn sm "1.prems" have a: "str_of_nat (n div 10) = str_of_nat (m div 10)"
        and b: "digit_char (n mod 10) = digit_char (m mod 10)"
        by simp_all
      from "1.IH" [OF False a] have "n div 10 = m div 10" .
      moreover from b have "n mod 10 = m mod 10"
        using digit_char_inj [of "n mod 10" "m mod 10"] by simp
      ultimately show ?thesis
        by (metis div_mult_mod_eq)
    qed
  qed
qed

section \<open>Rounding to binary64\<close>

declare scale_up.simps [simp del] scale_down.simps [simp del]

lemma round_half_even_of_int: "round_half_even (of_int k) = k"
  by (simp add: round_half_even_def)

lemma round_half_even_nonneg: "0 \<le> q \<Longrightarrow> 0 \<le> round_half_even q"
  by (simp add: round_half_even_def Let_def)

lemma round_half_even_le_int:
  assumes "q \<le> of_int k"
  shows "round_half_even q \<le> k"
proof (cases "\<lfloor>q\<rfloor> = k")
  case True
  then have "of_int k \<le> q"
    by (metis of_int_floor_le)
  with assms have "q = of_int k"
    by simp
  then show ?thesis
    by (simp add: round_half_even_of_int)
next
  case False
  moreover from assms have "\<lfloor>q\<rfloor> \<le> k"
    by (simp add: floor_le_iff)
  ultimately have "\<lfloor>q\<rfloor> + 1 \<le> k"
    by simp
  then show ?thesis
    by (simp add: round_half_even_def Let_def)
qed

lemma scale_down_small: "q < 2 ^ 53 \<Longrightarrow> scale_down q e = (q, e)"
  by (subst scale_down.simps) simp

lemma scale_up_exponent:
  "scale_up q e = (s, e') \<Longrightarrow> e' \<le> e \<and> s = q * 2 ^ nat (e - e')"
proof (induction q e rule: scale_up.induct)
  case (1 q e)
  show ?case
  proof (cases "q < 2 ^ 52 \<and> - 1074 < e")
    case True
    have "scale_up q e =
        (if q < 2 ^ 52 \<and> - 1074 < e then scale_up (2 * q) (e - 1) else (q, e))"
      by (rule scale_up.simps)
    with True have "scale_up q e = scale_up (2 * q) (e - 1)"
      by simp
    with "1.prems" have "scale_up (2 * q) (e - 1) = (s, e')"
      by simp
    from "1.IH" [OF True this] have le: "e' \<le> e - 1" and s: "s = 2 * q * 2 ^ nat (e - 1 - e')"
      by simp_all
    from le have "nat (e - e') = Suc (nat (e - 1 - e'))"
      by simp
    with le s show ?thesis
      by simp
  next
    case False
    have "scale_up q e =
        (if q < 2 ^ 52 \<and> - 1074 < e then scale_up (2 * q) (e - 1) else (q, e))"
      by (rule scale_up.simps)
    then have "scale_up q e = (q, e)"
      by (simp only: False if_False)
    with "1.prems" show ?thesis
      by simp
  qed
qed

text \<open>A rounded value never passes an integer below \<open>2^53\<close> that bounds the exact value.\<close>

lemma scale_down_pos: "scale_down q e = (q1, e1) \<Longrightarrow> 0 < q \<Longrightarrow> 0 < q1"
proof (induction q e rule: scale_down.induct)
  case (1 q e)
  have unfold: "scale_down q e = (if 2 ^ 53 \<le> q then scale_down (q / 2) (e + 1) else (q, e))"
    by (rule scale_down.simps)
  show ?case
  proof (cases "2 ^ 53 \<le> q")
    case True
    with unfold "1.prems" have "scale_down (q / 2) (e + 1) = (q1, e1)"
      by simp
    from "1.IH" [OF True this] "1.prems" show ?thesis
      by simp
  next
    case False
    with unfold "1.prems" show ?thesis
      by simp
  qed
qed

lemma pow2_pos: "0 < pow2 e"
  by (simp add: pow2_def)

lemma round_to_double_nonneg:
  assumes "0 \<le> q"
  shows "0 \<le> round_to_double q"
proof (cases "q = 0")
  case True
  then show ?thesis
    by (simp add: round_to_double_def)
next
  case False
  with assms have pos: "0 < q"
    by simp
  obtain q1 e1 where sd: "scale_down \<bar>q\<bar> 0 = (q1, e1)"
    by (cases "scale_down \<bar>q\<bar> 0")
  obtain s e where su: "scale_up q1 e1 = (s, e)"
    by (cases "scale_up q1 e1")
  from scale_down_pos [OF sd] pos have "0 < q1"
    by simp
  with scale_up_exponent [OF su] have "0 \<le> s"
    by simp
  then have "0 \<le> round_half_even s"
    by (rule round_half_even_nonneg)
  moreover have "round_to_double q = of_int (round_half_even s) * pow2 e"
    using pos sd su by (simp add: round_to_double_def)
  ultimately show ?thesis
    using pow2_pos [of e] by simp
qed

lemma round_to_double_le_int:
  assumes "0 \<le> q" and "q \<le> of_int k" and "k < 2 ^ 53"
  shows "round_to_double q \<le> of_int k"
proof (cases "q = 0")
  case True
  with assms show ?thesis
    by (simp add: round_to_double_def)
next
  case False
  with assms have pos: "0 < q"
    by simp
  from assms have "q < 2 ^ 53"
  proof -
    have "(of_int k :: rat) < of_int (2 ^ 53)"
      using assms(3) by (simp only: of_int_less_iff)
    with assms(2) show ?thesis
      by simp
  qed
  then have sd: "scale_down \<bar>q\<bar> 0 = (q, 0)"
    using pos by (simp add: scale_down_small)
  obtain s e where su: "scale_up q 0 = (s, e)"
    by (cases "scale_up q 0")
  from scale_up_exponent [OF su] have e: "e \<le> 0" and s: "s = q * 2 ^ nat (- e)"
    by simp_all
  have "s \<le> of_int (k * 2 ^ nat (- e))"
    using assms(2) s by simp
  then have "round_half_even s \<le> k * 2 ^ nat (- e)"
    by (rule round_half_even_le_int)
  then have "(of_int (round_half_even s) :: rat) \<le> of_int (k * 2 ^ nat (- e))"
    by (simp only: of_int_le_iff)
  then have "of_int (round_half_even s) / 2 ^ nat (- e) \<le> (of_int k :: rat)"
    by (simp add: divide_le_eq)
  moreover have "round_to_double q = of_int (round_half_even s) * pow2 e"
    using pos sd su by (simp add: round_to_double_def)
  moreover have "pow2 e = 1 / 2 ^ nat (- e)"
    using e by (cases "e = 0") (simp_all add: pow2_def)
  ultimately show ?thesis
    by simp
qed

lemma round_to_double_of_int:
  assumes "0 < k" and "k < 2 ^ 53"
  shows "round_to_double (of_int k) = of_int k"
proof -
  have "(of_int k :: rat) < of_int (2 ^ 53)"
    using assms(2) by (simp only: of_int_less_iff)
  then have sd: "scale_down \<bar>of_int k\<bar> 0 = (of_int k, 0)"
    using assms(1) by (simp add: scale_down_small)
  obtain s e where su: "scale_up (of_int k) 0 = (s, e)"
    by (cases "scale_up (rat_of_int k) 0")
  from scale_up_exponent [OF su] have e: "e \<le> 0" and s: "s = of_int k * 2 ^ nat (- e)"
    by simp_all
  from s have "s = of_int (k * 2 ^ nat (- e))"
    by simp
  then have "round_half_even s = k * 2 ^ nat (- e)"
    by (simp only: round_half_even_of_int)
  moreover have "round_to_double (of_int k) = of_int (round_half_even s) * pow2 e"
    using assms(1) sd su by (simp add: round_to_double_def)
  moreover have "pow2 e = 1 / 2 ^ nat (- e)"
    using e by (cases "e = 0") (simp_all add: pow2_def)
  ultimately show ?thesis
    by simp
qed

lemma float_100: "round_to_double 100 = 100"
  using round_to_double_of_int [of 100] by simp


section \<open>The ATS score from the two counts\<close>

lemma matches_of_length:
  "matches_of L text kws =
     int (length (filter (\<lambda>k. str_contains (str_lower L text) k) kws))"
  unfolding matches_of_def by (induction kws) simp_all

lemma ats_score_counts:
  "calculate_ats_score L text job_desc =
     Inr (ats_of_counts (length (matched_keywords L text job_desc))
            (length (keywords_of L job_desc)))"
proof (cases "keywords_of L job_desc = []")
  case True
  then show ?thesis
    by (simp add: calculate_ats_score_def ats_of_counts_def ats_unclamped_def)
next
  case False
  then show ?thesis
    by (simp add: calculate_ats_score_def ats_of_counts_def ats_unclamped_def Let_def
        matches_of_length matched_keywords_def int_truediv_def float_100)
qed

lemma ats_unclamped_score_counts:
  "calculate_ats_score_unclamped L text job_desc =
     Inr (ats_unclamped (length (matched_keywords L text job_desc))
            (length (keywords_of L job_desc)))"
proof (cases "keywords_of L job_desc = []")
  case True
  then show ?thesis
    by (simp add: calculate_ats_score_unclamped_def ats_unclamped_def)
next
  case False
  then show ?thesis
    by (simp add: calculate_ats_score_unclamped_def ats_unclamped_def Let_def
        matches_of_length matched_keywords_def int_truediv_def float_100)
qed

lemma ats_unclamped_nonneg: "0 \<le> ats_unclamped m n"
proof (cases "n = 0")
  case True
  then show ?thesis
    by (simp add: ats_unclamped_def)
next
  case False
  have "0 \<le> round_to_double (of_nat m / of_nat n)"
    by (rule round_to_double_nonneg) simp
  then have "0 \<le> round_to_double (of_nat m / of_nat n) * 100"
    by simp
  then have "0 \<le> round_to_double (round_to_double (of_nat m / of_nat n) * 100)"
    by (rule round_to_double_nonneg)
  then have "0 \<le> round_half_even (round_to_double (round_to_double (of_nat m / of_nat n) * 100))"
    by (rule round_half_even_nonneg)
  with False show ?thesis
    by (simp add: ats_unclamped_def)
qed

lemma ats_unclamped_le_100:
  assumes "m \<le> n"
  shows "ats_unclamped m n \<le> 100"
proof (cases "n = 0")
  case True
  then show ?thesis
    by (simp add: ats_unclamped_def)
next
  case False
  define d where "d = round_to_double (of_nat m / of_nat n)"
  have quot: "(of_nat m / of_nat n :: rat) \<le> of_int 1"
    using assms False by simp
  have "0 \<le> d"
    unfolding d_def by (rule round_to_double_nonneg) simp
  moreover have "d \<le> of_int 1"
    unfolding d_def by (rule round_to_double_le_int [OF _ quot]) simp_all
  ultimately have "0 \<le> d * 100" and "d * 100 \<le> of_int 100"
    by simp_all
  then have "round_to_double (d * 100) \<le> of_int 100"
    by (rule round_to_double_le_int) simp
  then have "round_half_even (round_to_double (d * 100)) \<le> 100"
    by (rule round_half_even_le_int)
  with False show ?thesis
    by (simp add: ats_unclamped_def d_def)
qed

lemma floor_rat_numeral: "\<lfloor>numeral a / numeral b :: rat\<rfloor> = numeral a div numeral b"
  using floor_divide_of_int_eq [of "numeral a" "numeral b", where ?'a = rat] by simp

text \<open>
  The score is computed in binary64 arithmetic. With 23 of 40 keywords matched the
  quotient rounds below \<open>0.575\<close>, the product is \<open>57.49999999999999\<close> and the score
  is 57, where the exact value \<open>57.5\<close> rounds to 58.
\<close>

lemma double_23_40: "round_to_double (23 / 40) = 2589569785738035 / 4503599627370496"
  by (simp add: round_to_double_def scale_up.simps scale_down_small round_half_even_def pow2_def Let_def floor_rat_numeral)

lemma double_23_40_times_100: "round_to_double (2589569785738035 / 4503599627370496 * 100) = 8092405580431359 / 140737488355328"
  by (simp add: round_to_double_def scale_up.simps scale_down_small round_half_even_def pow2_def Let_def floor_rat_numeral)

lemma ats_unclamped_23_40: "ats_unclamped 23 40 = 57"
proof -
  have "ats_unclamped 23 40 = round_half_even (round_to_double (round_to_double (23 / 40) * 100))"
    by (simp add: ats_unclamped_def)
  also have "\<dots> = round_half_even (round_to_double (2589569785738035 / 4503599627370496 * 100))"
    by (simp only: double_23_40)
  also have "\<dots> = round_half_even (8092405580431359 / 140737488355328)"
    by (simp only: double_23_40_times_100)
  also have "\<dots> = 57"
    by (simp add: round_half_even_def Let_def floor_rat_numeral)
  finally show ?thesis .
qed

lemma exact_23_40: "round_half_even (23 / 40 * 100) = 58"
  by (simp add: round_half_even_def Let_def floor_rat_numeral)

text \<open>
  A tie is rounded to the even integer: with 1 of 8 keywords matched the product is
  \<open>12.5\<close> and the score is 12. The values for the six section counts follow.
\<close>

lemma ats_unclamped_1_8: "ats_unclamped 1 8 = 12"
proof -
  have quotient: "round_to_double (1 / 8) = 1 / 8"
    by (simp add: round_to_double_def scale_up.simps scale_down_small round_half_even_def pow2_def Let_def floor_rat_numeral)
  have product: "round_to_double (1 / 8 * 100) = 25 / 2"
    by (simp add: round_to_double_def scale_up.simps scale_down_small round_half_even_def pow2_def Let_def floor_rat_numeral)
  have "ats_unclamped 1 8 = round_half_even (round_to_double (round_to_double (1 / 8) * 100))"
    by (simp add: ats_unclamped_def)
  also have "\<dots> = round_half_even (round_to_double (1 / 8 * 100))"
    by (simp only: quotient)
  also have "\<dots> = round_half_even (25 / 2)"
    by (simp only: product)
  also have "\<dots> = 12"
    by (simp add: round_half_even_def Let_def floor_rat_numeral)
  finally show ?thesis .
qed

lemma ats_unclamped_1_6: "ats_unclamped 1 6 = 17"
proof -
  have quotient: "round_to_double (1 / 6) = 6004799503160661 / 36028797018963968"
    by (simp add: round_to_double_def scale_up.simps scale_down_small round_half_even_def pow2_def Let_def floor_rat_numeral)
  have product: "round_to_double (6004799503160661 / 36028797018963968 * 100) = 2345624805922133 / 140737488355328"
    by (simp add: round_to_double_def scale_up.simps scale_down_small round_half_even_def pow2_def Let_def floor_rat_numeral)
  have "ats_unclamped 1 6 = round_half_even (round_to_double (round_to_double (1 / 6) * 100))"
    by (simp add: ats_unclamped_def)
  also have "\<dots> = round_half_even (round_to_double (6004799503160661 / 36028797018963968 * 100))"
    by (simp only: quotient)
  also have "\<dots> = round_half_even (2345624805922133 / 140737488355328)"
    by (simp only: product)
  also have "\<dots> = 17"
    by (simp add: round_half_even_def Let_def floor_rat_numeral)
  finally show ?thesis .
qed

lemma ats_unclamped_2_6: "ats_unclamped 2 6 = 33"
proof -
  have quotient: "round_to_double (1 / 3) = 6004799503160661 / 18014398509481984"
    by (simp add: round_to_double_def scale_up.simps scale_down_small round_half_even_def pow2_def Let_def floor_rat_numeral)
  have product: "round_to_double (6004799503160661 / 18014398509481984 * 100) = 2345624805922133 / 70368744177664"
    by (simp add: round_to_double_def scale_up.simps scale_down_small round_half_even_def pow2_def Let_def floor_rat_numeral)
  have "ats_unclamped 2 6 = round_half_even (round_to_double (round_to_double (1 / 3) * 100))"
    by (simp add: ats_unclamped_def)
  also have "\<dots> = round_half_even (round_to_double (6004799503160661 / 18014398509481984 * 100))"
    by (simp only: quotient)
  also have "\<dots> = round_half_even (2345624805922133 / 70368744177664)"
    by (simp only: product)
  also have "\<dots> = 33"
    by (simp add: round_half_even_def Let_def floor_rat_numeral)
  finally show ?thesis .
qed

lemma ats_unclamped_3_6: "ats_unclamped 3 6 = 50"
proof -
  have quotient: "round_to_double (1 / 2) = 1 / 2"
    by (simp add: round_to_double_def scale_up.simps scale_down_small round_half_even_def pow2_def Let_def floor_rat_numeral)
  have product: "round_to_double (1 / 2 * 100) = 50"
    by (simp add: round_to_double_def scale_up.simps scale_down_small round_half_even_def pow2_def Let_def floor_rat_numeral)
  have "ats_unclamped 3 6 = round_half_even (round_to_double (round_to_double (1 / 2) * 100))"
    by (simp add: ats_unclamped_def)
  also have "\<dots> = round_half_even (round_to_double (1 / 2 * 100))"
    by (simp only: quotient)
  also have "\<dots> = round_half_even (50)"
    by (simp only: product)
  also have "\<dots> = 50"
    by (simp add: round_half_even_def Let_def floor_rat_numeral)
  finally show ?thesis .
qed

lemma ats_unclamped_4_6: "ats_unclamped 4 6 = 67"
proof -
  have quotient: "round_to_double (2 / 3) = 6004799503160661 / 9007199254740992"
    by (simp add: round_to_double_def scale_up.simps scale_down_small round_half_even_def pow2_def Let_def floor_rat_numeral)
  have product: "round_to_double (6004799503160661 / 9007199254740992 * 100) = 2345624805922133 / 35184372088832"
    by (simp add: round_to_double_def scale_up.simps scale_down_small round_half_even_def pow2_def Let_def floor_rat_numeral)
  have "ats_unclamped 4 6 = round_half_even (round_to_double (round_to_double (2 / 3) * 100))"
    by (simp add: ats_unclamped_def)
  also have "\<dots> = round_half_even (round_to_double (6004799503160661 / 9007199254740992 * 100))"
    by (simp only: quotient)
  also have "\<dots> = round_half_even (2345624805922133 / 35184372088832)"
    by (simp only: product)
  also have "\<dots> = 67"
    by (simp add: round_half_even_def Let_def floor_rat_numeral)
  finally show ?thesis .
qed

lemma ats_unclamped_5_6: "ats_unclamped 5 6 = 83"
proof -
  have quotient: "round_to_double (5 / 6) = 7505999378950827 / 9007199254740992"
    by (simp add: round_to_double_def scale_up.simps scale_down_small round_half_even_def pow2_def Let_def floor_rat_numeral)
  have product: "round_to_double (7505999378950827 / 9007199254740992 * 100) = 2932031007402667 / 35184372088832"
    by (simp add: round_to_double_def scale_up.simps scale_down_small round_half_even_def pow2_def Let_def floor_rat_numeral)
  have "ats_unclamped 5 6 = round_half_even (round_to_double (round_to_double (5 / 6) * 100))"
    by (simp add: ats_unclamped_def)
  also have "\<dots> = round_half_even (round_to_double (7505999378950827 / 9007199254740992 * 100))"
    by (simp only: quotient)
  also have "\<dots> = round_half_even (2932031007402667 / 35184372088832)"
    by (simp only: product)
  also have "\<dots> = 83"
    by (simp add: round_half_even_def Let_def floor_rat_numeral)
  finally show ?thesis .
qed

lemma ats_unclamped_6_6: "ats_unclamped 6 6 = 100"
proof -
  have quotient: "round_to_double (1) = 1"
    by (simp add: round_to_double_def scale_up.simps scale_down_small round_half_even_def pow2_def Let_def floor_rat_numeral)
  have product: "round_to_double (1 * 100) = 100"
    by (simp add: round_to_double_def scale_up.simps scale_down_small round_half_even_def pow2_def Let_def floor_rat_numeral)
  have "ats_unclamped 6 6 = round_half_even (round_to_double (round_to_double (1) * 100))"
    by (simp add: ats_unclamped_def)
  also have "\<dots> = round_half_even (round_to_double (1 * 100))"
    by (simp only: quotient)
  also have "\<dots> = round_half_even (100)"
    by (simp only: product)
  also have "\<dots> = 100"
    by (simp add: round_half_even_def Let_def floor_rat_numeral)
  finally show ?thesis .
qed

lemma ats_unclamped_1_3: "ats_unclamped 1 3 = 33"
proof -
  have quotient: "round_to_double (1 / 3) = 6004799503160661 / 18014398509481984"
    by (simp add: round_to_double_def scale_up.simps scale_down_small round_half_even_def pow2_def Let_def floor_rat_numeral)
  have product: "round_to_double (6004799503160661 / 18014398509481984 * 100) = 2345624805922133 / 70368744177664"
    by (simp add: round_to_double_def scale_up.simps scale_down_small round_half_even_def pow2_def Let_def floor_rat_numeral)
  have "ats_unclamped 1 3 = round_half_even (round_to_double (round_to_double (1 / 3) * 100))"
    by (simp add: ats_unclamped_def)
  also have "\<dots> = round_half_even (round_to_double (6004799503160661 / 18014398509481984 * 100))"
    by (simp only: quotient)
  also have "\<dots> = round_half_even (2345624805922133 / 70368744177664)"
    by (simp only: product)
  also have "\<dots> = 33"
    by (simp add: round_half_even_def Let_def floor_rat_numeral)
  finally show ?thesis .
qed

section \<open>Replacing runs and stripping\<close>

lemma run_free_Cons:
  "run_free X (c # cs) \<longleftrightarrow>
     (if X c then c = 32 \<and> (cs = [] \<or> \<not> X (hd cs)) else True) \<and> run_free X cs"
  by (cases cs) auto

lemma sub_scan_in_run_head: "sub_scan X True s = [] \<or> \<not> X (hd (sub_scan X True s))"
  by (induction s) simp_all

lemma run_free_sub_scan: "run_free X (sub_scan X b s)"
proof (induction s arbitrary: b)
  case Nil
  show ?case by simp
next
  case (Cons c s)
  show ?case
    using Cons [of True] Cons [of False] sub_scan_in_run_head [of X s]
    by (auto simp: run_free_Cons)
qed

lemma sub_scan_flag: "s = [] \<or> \<not> X (hd s) \<Longrightarrow> sub_scan X True s = sub_scan X False s"
  by (cases s) auto

lemma run_free_fixed: "run_free X u \<Longrightarrow> sub_scan X False u = u"
proof (induction u)
  case Nil
  show ?case by simp
next
  case (Cons c u)
  then have tail: "sub_scan X False u = u"
    by (simp add: run_free_Cons)
  show ?case
  proof (cases "X c")
    case True
    with Cons.prems have "c = 32" and "u = [] \<or> \<not> X (hd u)"
      by (simp_all add: run_free_Cons)
    with True tail sub_scan_flag [of u X] show ?thesis
      by simp
  next
    case False
    with tail show ?thesis
      by simp
  qed
qed

lemma run_free_prefix: "prefix v u \<Longrightarrow> run_free X u \<Longrightarrow> run_free X v"
proof (induction v arbitrary: u)
  case Nil
  show ?case by simp
next
  case (Cons c v)
  from Cons.prems(1) obtain us where u: "u = c # us" and pre: "prefix v us"
    by (cases u) auto
  from Cons.prems u have free: "run_free X us"
    by (simp add: run_free_Cons)
  have "v = [] \<or> \<not> X (hd v)" if "us = [] \<or> \<not> X (hd us)"
    using that pre by (cases v; cases us) auto
  with Cons.prems u Cons.IH [OF pre free] show ?case
    by (auto simp: run_free_Cons)
qed

lemma run_free_dropWhile: "run_free X u \<Longrightarrow> run_free X (dropWhile P u)"
  by (induction u) (simp_all add: run_free_Cons)

lemma strip_prefix: "prefix (strip sp u) (dropWhile sp u)"
proof -
  have "dropWhile sp u = rev (dropWhile sp (rev (dropWhile sp u)))
          @ rev (takeWhile sp (rev (dropWhile sp u)))"
    by (metis rev_append rev_rev_ident takeWhile_dropWhile_id)
  then show ?thesis
    unfolding strip_def by (metis prefixI)
qed

lemma run_free_strip: "run_free X u \<Longrightarrow> run_free X (strip sp u)"
  using run_free_prefix [OF strip_prefix] run_free_dropWhile by blast

lemma strip_ends:
  "strip sp u = [] \<or> (\<not> sp (hd (strip sp u)) \<and> \<not> sp (last (strip sp u)))"
proof (cases "strip sp u = []")
  case True
  then show ?thesis by simp
next
  case False
  define a where "a = dropWhile sp u"
  from False have nonempty: "dropWhile sp (rev a) \<noteq> []"
    by (simp add: strip_def a_def)
  then have "\<not> sp (hd (dropWhile sp (rev a)))"
    by (rule hd_dropWhile)
  then have last: "\<not> sp (last (strip sp u))"
    using nonempty by (simp add: strip_def a_def last_rev)
  from strip_prefix [of sp u] obtain zs where "a = strip sp u @ zs"
    unfolding a_def prefix_def by blast
  with False have "hd (strip sp u) = hd a" and "a \<noteq> []"
    by simp_all
  moreover from \<open>a \<noteq> []\<close> have "\<not> sp (hd a)"
    unfolding a_def by (rule hd_dropWhile)
  ultimately show ?thesis
    using last by simp
qed

lemma strip_fixed:
  assumes "v = [] \<or> (\<not> sp (hd v) \<and> \<not> sp (last v))"
  shows "strip sp v = v"
proof (cases "v = []")
  case True
  then show ?thesis by (simp add: strip_def)
next
  case False
  with assms have h: "\<not> sp (hd v)" and l: "\<not> sp (last v)"
    by simp_all
  from False h have "dropWhile sp v = v"
    by (cases v) simp_all
  moreover from False l have "dropWhile sp (rev v) = rev v"
    by (cases "rev v") (simp_all add: last_rev [symmetric] hd_rev)
  ultimately show ?thesis
    by (simp add: strip_def)
qed

lemma strip_idem: "strip sp (strip sp u) = strip sp u"
  by (rule strip_fixed) (rule strip_ends)

lemma set_sub_scan: "set (sub_scan X b s) \<subseteq> insert 32 {c \<in> set s. \<not> X c}"
  by (induction s arbitrary: b) auto

lemma set_strip: "set (strip sp u) \<subseteq> set u"
  unfolding strip_def by (auto dest!: set_dropWhileD)

lemma run_free_no_double_space:
  assumes "X 32"
  shows "run_free X u \<Longrightarrow> \<not> sublist [32, 32] u"
proof (induction u)
  case Nil
  show ?case by simp
next
  case (Cons c u)
  from Cons.prems have "run_free X u"
    by (cases u) simp_all
  with Cons.IH have tail: "\<not> sublist [32, 32] u"
    by simp
  have "\<not> prefix [32, 32] (c # u)"
  proof
    assume "prefix [32, 32] (c # u)"
    then obtain r where "c = 32" and "u = 32 # r"
      by (cases u) simp_all
    with Cons.prems assms show False
      by simp
  qed
  with tail show ?case
    by (simp only: sublist_Cons_right simp_thms)
qed

section \<open>The issue texts\<close>

text \<open>The three issue texts differ, and the long-line issue determines its count.\<close>

lemma bullet_issue_not_caps: "bullet_issue \<noteq> caps_issue"
  by (simp add: bullet_issue_def caps_issue_def)

lemma long_issue_starts_with_digit: "\<exists>d rest. long_issue n = d # rest \<and> is_digit d"
proof -
  from str_of_nat_digits [of n] obtain d ds where "str_of_nat n = d # ds" and "is_digit d"
    by (cases "str_of_nat n") auto
  then show ?thesis
    by (simp add: long_issue_def)
qed

lemma long_issue_not_bullet: "long_issue n \<noteq> bullet_issue"
  using long_issue_starts_with_digit [of n] by (auto simp: bullet_issue_def is_digit_def)

lemma long_issue_not_caps: "long_issue n \<noteq> caps_issue"
  using long_issue_starts_with_digit [of n] by (auto simp: caps_issue_def is_digit_def)

lemma long_issue_inj: "long_issue n = long_issue m \<longleftrightarrow> n = m"
  by (auto simp: long_issue_def dest: str_of_nat_inj)

lemmas issue_distinct =
  bullet_issue_not_caps bullet_issue_not_caps [symmetric]
  long_issue_not_bullet long_issue_not_bullet [symmetric]
  long_issue_not_caps long_issue_not_caps [symmetric]

section \<open>The page loop and the preprocessor\<close>

lemma page_loop_concat:
  "page_loop (map Inr texts) acc = Inr (acc @ concat texts)"
  by (induction texts arbitrary: acc) simp_all

lemma page_loop_first_failure:
  "page_loop (map Inr texts @ Inl e # rest) acc = Inl e"
  by (induction texts arbitrary: acc) simp_all

lemma strip_Nil: "strip sp [] = []"
  by (simp add: strip_def)

lemma re_sub_runs_Nil: "re_sub_runs X [] = []"
  by (simp add: re_sub_runs_def)

lemma preprocess_chars:
  assumes "c \<in> set (preprocess_text L T)"
  shows "c = 32 \<or> (c \<in> set (str_lower L T) \<and> isword L c)"
proof -
  from assms have "c \<in> set (re_sub_runs (\<lambda>c. \<not> isword L c) (str_lower L T))"
    using set_strip unfolding preprocess_text_def by blast
  then show ?thesis
    using set_sub_scan [of "\<lambda>c. \<not> isword L c" False "str_lower L T"]
    unfolding re_sub_runs_def by auto
qed

lemma preprocess_run_free: "run_free (\<lambda>c. \<not> isword L c) (preprocess_text L T)"
  unfolding preprocess_text_def re_sub_runs_def
  by (rule run_free_strip) (rule run_free_sub_scan)

section \<open>The stand-in on concrete inputs\<close>

lemma toy_open_empty: "fitz_open toy_lib [] = Inl ''cannot open empty document''"
  by (simp add: toy_lib_def toy_fitz_open_def)

lemma toy_open_blank: "fitz_open toy_lib [37] = Inr (map Inr [[]], None)"
  by (simp add: toy_lib_def toy_fitz_open_def)

lemma doc_lib_open: "fitz_open (doc_lib d) pdf_file = Inr d"
  by (simp add: doc_lib_def)

lemma doc_lib_isspace: "isspace (doc_lib d) = ascii_isspace"
  by (simp add: doc_lib_def toy_lib_def)

lemma toy_preprocess_blank: "preprocess_text toy_lib [32, 33] = []"
  by (simp add: preprocess_text_def toy_lib_def strip_def re_sub_runs_def ascii_lower_def
      ascii_isword_def ascii_isspace_def)

lemma toy_preprocess_word: "preprocess_text toy_lib [80, 121] = [112, 121]"
  by (simp add: preprocess_text_def toy_lib_def strip_def re_sub_runs_def ascii_lower_def
      ascii_isword_def ascii_isspace_def)

lemma toy_lowercased: "lowercased toy_lib c \<longleftrightarrow> ascii_lower c = c"
  by (simp add: lowercased_def toy_lib_def)

lemma ascii_lower_idem: "ascii_lower (ascii_lower c) = ascii_lower c"
  by (simp add: ascii_lower_def)

lemma toy_lower_output: "lower_output_lowercased toy_lib"
  unfolding lower_output_lowercased_def toy_lowercased
  by (simp add: toy_lib_def ascii_lower_idem)

lemma toy_lower_keeps: "lower_keeps_lowercased toy_lib"
  unfolding lower_keeps_lowercased_def toy_lowercased
  by (simp add: toy_lib_def map_idI) (simp add: ascii_lower_def)

lemma toy_space_not_word: "\<not> isword toy_lib 32"
  by (simp add: toy_lib_def ascii_isword_def)

lemma toy_preprocess_example:
  "preprocess_text toy_lib [32, 72, 105, 44, 32, 32, 89, 111, 117, 33] = [104, 105, 32, 121, 111, 117]"
  by (simp add: preprocess_text_def toy_lib_def strip_def re_sub_runs_def ascii_lower_def
      ascii_isword_def ascii_isspace_def)

section \<open>The string functions on examples\<close>

text \<open>
  The string functions of the model on inputs for which Python's answers are known:
  \<open>"a\r\nb\n\nc".splitlines() == ['a', 'b', '', 'c']\<close>,
  \<open>"ab\n".splitlines() == ['ab']\<close>, \<open>"\n".splitlines() == ['']\<close>,
  \<open>"".splitlines() == []\<close>.
\<close>

lemma splitlines_examples:
  "splitlines [97, 13, 10, 98, 10, 10, 99] = [[97], [98], [], [99]]"
  "splitlines [97, 98, 10] = [[97, 98]]"
  "splitlines [10] = [[]]"
  "splitlines [] = []"
  "splitlines [97, 13, 98, 11, 99, 8232, 100] = [[97], [98], [99], [100]]"
  by (simp_all add: splitlines_def is_linebreak_def)

text \<open>
  \<open>"  ab  c\td ".split() == ['ab', 'c', 'd']\<close> and \<open>"   ".split() == []\<close>.
\<close>

lemma split_examples:
  "split ascii_isspace [32, 32, 97, 98, 32, 32, 99, 9, 100, 32] = [[97, 98], [99], [100]]"
  "split ascii_isspace [32, 32, 32] = []"
  "split ascii_isspace [] = []"
  by (simp_all add: split_def ascii_isspace_def)

text \<open>
  \<open>"aaa".count("aa") == 1\<close>, \<open>"aaaa".count("aa") == 2\<close>,
  \<open>"- - -".count("- ") == 2\<close>, \<open>"ab".count("") == 3\<close>; \<open>"ab" in "xabx"\<close>,
  \<open>"" in ""\<close>, not \<open>"ab" in "a"\<close>; \<open>str(305) == "305"\<close>.
\<close>

lemma str_count_examples:
  "str_count [97, 97, 97] [97, 97] = 1"
  "str_count [97, 97, 97, 97] [97, 97] = 2"
  "str_count [45, 32, 45, 32, 45] dash_space = 2"
  "str_count [97, 98] [] = 3"
  by (simp_all add: str_count.simps dash_space_def)

lemma str_contains_examples:
  "str_contains [120, 97, 98, 120] [97, 98]"
  "str_contains [] []"
  "\<not> str_contains [97] [97, 98]"
  by simp_all

lemma str_of_nat_examples:
  "py_str (str_of_nat 0) = py_str ''0''"
  "py_str (str_of_nat 7) = py_str ''7''"
  "py_str (str_of_nat 10) = py_str ''10''"
  "py_str (str_of_nat 305) = py_str ''305''"
  by (simp_all add: str_of_nat.simps digit_char_def py_str_def)

text \<open>
  \<open>preprocess_text(" Hi,  You! ") == "hi you"\<close>, \<open>preprocess_text("a--b") == "a b"\<close>,
  \<open>preprocess_text("__x__") == "__x__"\<close> and \<open>preprocess_text("!!") == ""\<close>.
\<close>

lemma preprocess_examples:
  "preprocess_text toy_lib [32, 72, 105, 44, 32, 32, 89, 111, 117, 33, 32]
     = [104, 105, 32, 121, 111, 117]"
  "preprocess_text toy_lib [97, 45, 45, 98] = [97, 32, 98]"
  "preprocess_text toy_lib [95, 95, 120, 95, 95] = [95, 95, 120, 95, 95]"
  "preprocess_text toy_lib [33, 33] = []"
  by (simp_all add: preprocess_text_def toy_lib_def strip_def re_sub_runs_def ascii_lower_def
      ascii_isword_def ascii_isspace_def)

text \<open>
  The skill matcher on the stand-in: with the resume \<open>Python dev\<close>, the job description
  \<open>java python\<close> and the skills \<open>python\<close>, \<open>java\<close>, \<open>rust\<close>, the skill
  \<open>python\<close> is matched, \<open>java\<close> is missing and \<open>rust\<close> is in neither list.
\<close>

lemma extract_skills_example:
  "extract_skills toy_lib
     [80, 121, 116, 104, 111, 110, 32, 100, 101, 118]
     [106, 97, 118, 97, 32, 112, 121, 116, 104, 111, 110]
     [[112, 121, 116, 104, 111, 110], [106, 97, 118, 97], [114, 117, 115, 116]]
     default_threshold
   = ([[112, 121, 116, 104, 111, 110]], [[106, 97, 118, 97]])"
  by (simp add: extract_skills_def toy_lib_def ascii_lower_def default_threshold_def)

section \<open>C1: the skill matcher\<close>

lemma skills_loop_filter:
  "skills_loop L r j t skills matched missing =
     (matched @ filter (\<lambda>s. t \<le> partial_ratio L (str_lower L s) r) skills,
      missing @ filter (\<lambda>s. t \<le> partial_ratio L (str_lower L s) j
                            \<and> partial_ratio L (str_lower L s) r < t) skills)"
proof (induction skills arbitrary: matched missing)
  case Nil
  show ?case by simp
next
  case (Cons skill skills)
  show ?case
    by (simp add: Cons.IH Let_def)
qed

text \<open>
  Claim C1. For every resume text, job description, skill list and threshold \<open>t\<close>,
  \<open>extract_skills\<close> returns as matched exactly the skills whose similarity against the
  lowercased resume text is at least \<open>t\<close>, and as missing exactly the skills whose
  similarity against the lowercased job description is at least \<open>t\<close> while their
  resume similarity is below \<open>t\<close>, each in the order (and with the repetitions) of
  the skill list; the two sequences have no skill in common and are subsequences of the
  skill list. The similarity is the partial ratio of the lowercased skill and the
  lowercased text.
\<close>

theorem extract_skills_partition:
  "extract_skills L resume_text job_desc skills_list t =
     (filter (\<lambda>s. t \<le> similarity L s resume_text) skills_list,
      filter (\<lambda>s. t \<le> similarity L s job_desc \<and> similarity L s resume_text < t) skills_list)
   \<and> set (fst (extract_skills L resume_text job_desc skills_list t))
       \<inter> set (snd (extract_skills L resume_text job_desc skills_list t)) = {}
   \<and> subseq (fst (extract_skills L resume_text job_desc skills_list t)) skills_list
   \<and> subseq (snd (extract_skills L resume_text job_desc skills_list t)) skills_list"
proof -
  have eq: "extract_skills L resume_text job_desc skills_list t =
     (filter (\<lambda>s. t \<le> similarity L s resume_text) skills_list,
      filter (\<lambda>s. t \<le> similarity L s job_desc \<and> similarity L s resume_text < t) skills_list)"
    by (simp add: extract_skills_def skills_loop_filter similarity_def)
  have disj: "set (filter (\<lambda>s. t \<le> similarity L s resume_text) skills_list)
       \<inter> set (filter (\<lambda>s. t \<le> similarity L s job_desc \<and> similarity L s resume_text < t)
                skills_list) = {}"
    by auto
  show ?thesis
    unfolding eq fst_conv snd_conv using disj by simp
qed

section \<open>C2: which formatting issues are emitted\<close>

text \<open>
  Claim C2, as amended. For every text, \<open>check_formatting\<close> emits the bullet-point
  suggestion exactly when the bullet character occurs fewer than 3 times and a hyphen
  followed by a space occurs fewer than 3 times, each count taken on its own; it emits
  the ALL-CAPS warning exactly when some line is uppercase (\<open>str.isupper()\<close>) and
  longer than 10 characters; and it emits the long-line issue with the count \<open>n\<close>
  exactly when \<open>n\<close> is the number of lines longer than 160 characters and is not zero.
\<close>

theorem check_formatting_issues:
  "(bullet_issue \<in> set (check_formatting L text)
      \<longleftrightarrow> occurrences text bullet < 3 \<and> occurrences text dash_space < 3)
   \<and> (caps_issue \<in> set (check_formatting L text)
      \<longleftrightarrow> (\<exists>line \<in> set (splitlines text). str_isupper L line \<and> 10 < length line))
   \<and> (long_issue n \<in> set (check_formatting L text)
      \<longleftrightarrow> n = length (filter (\<lambda>line. 160 < length line) (splitlines text)) \<and> 0 < n)"
proof -
  have count_bullet: "str_count text bullet = occurrences text bullet"
    by (simp add: bullet_def str_count_char)
  have count_dash: "str_count text dash_space = occurrences text dash_space"
    by (simp add: dash_space_def str_count_pair)
  have "bullet_issue \<in> set (check_formatting L text)
      \<longleftrightarrow> occurrences text bullet < 3 \<and> occurrences text dash_space < 3"
    by (simp add: check_formatting_def issue_distinct count_bullet count_dash)
  moreover have "caps_issue \<in> set (check_formatting L text)
      \<longleftrightarrow> (\<exists>line \<in> set (splitlines text). str_isupper L line \<and> 10 < length line)"
    by (simp add: check_formatting_def issue_distinct list_ex_iff)
  moreover have "long_issue n \<in> set (check_formatting L text)
      \<longleftrightarrow> n = length (filter (\<lambda>line. 160 < length line) (splitlines text)) \<and> 0 < n"
    by (auto simp: check_formatting_def issue_distinct long_issue_inj long_lines_def)
  ultimately show ?thesis
    by blast
qed

text \<open>
  The claim as stated compares the total of the two counts with 3. A text with two
  bullet characters and two hyphen-space pairs has four markers, and the suggestion is
  emitted all the same.
\<close>

theorem bullet_issue_not_by_total:
  "bullet_issue \<in> set (check_formatting toy_lib [8226, 8226, 45, 32, 45, 32])
   \<and> \<not> bullet_markers [8226, 8226, 45, 32, 45, 32] < 3"
proof -
  have "str_count [8226, 8226, 45, 32, 45, 32] bullet = 2"
    by (simp add: str_count_char bullet_def)
  moreover have "str_count [8226, 8226, 45, 32, 45, 32] dash_space = 2"
    by (simp add: str_count_pair dash_space_def)
  ultimately have "bullet_issue \<in> set (check_formatting toy_lib [8226, 8226, 45, 32, 45, 32])"
    by (simp add: check_formatting_def)
  moreover have "bullet_markers [8226, 8226, 45, 32, 45, 32] = 4"
    by (simp add: bullet_markers_def bullet_def dash_space_def)
  ultimately show ?thesis
    by simp
qed

section \<open>C3: failures of the text extractor\<close>

text \<open>
  Claim C3, as amended. For every upload, if reading it raises, if the bytes cannot be
  opened as a PDF document, if a page raises while its text is read, or if closing the
  document raises, \<open>extract_text_from_pdf\<close> raises nothing: it passes the message
  \<open>Error reading PDF: \<close> followed by the text of that exception (of the first page
  that raises, when a page does) to \<open>st.error\<close> and returns the empty string.
  Otherwise it shows no message and returns the texts of the pages in page order, every
  run of whitespace replaced by one space, stripped; so a document whose pages yield no
  text returns the empty string as well.
\<close>

theorem extract_text_outcomes:
  "(uploaded_file = Inl e
      \<longrightarrow> extract_text_from_pdf L uploaded_file = ([], [''Error reading PDF: '' @ e]))
   \<and> (uploaded_file = Inr pdf_file \<and> fitz_open L pdf_file = Inl e
      \<longrightarrow> extract_text_from_pdf L uploaded_file = ([], [''Error reading PDF: '' @ e]))
   \<and> (uploaded_file = Inr pdf_file
        \<and> fitz_open L pdf_file = Inr (map Inr texts @ Inl e # rest, closing)
      \<longrightarrow> extract_text_from_pdf L uploaded_file = ([], [''Error reading PDF: '' @ e]))
   \<and> (uploaded_file = Inr pdf_file \<and> fitz_open L pdf_file = Inr (map Inr texts, Some e)
      \<longrightarrow> extract_text_from_pdf L uploaded_file = ([], [''Error reading PDF: '' @ e]))
   \<and> (uploaded_file = Inr pdf_file \<and> fitz_open L pdf_file = Inr (map Inr texts, None)
      \<longrightarrow> extract_text_from_pdf L uploaded_file
          = (strip (isspace L) (re_sub_runs (isspace L) (concat texts)), []))
   \<and> (uploaded_file = Inr pdf_file \<and> fitz_open L pdf_file = Inr (map Inr texts, None)
        \<and> concat texts = []
      \<longrightarrow> extract_text_from_pdf L uploaded_file = ([], []))"
proof (intro conjI impI)
  assume "uploaded_file = Inl e"
  then show "extract_text_from_pdf L uploaded_file = ([], [''Error reading PDF: '' @ e])"
    by (simp add: extract_text_from_pdf_def pdf_error_def)
next
  assume "uploaded_file = Inr pdf_file \<and> fitz_open L pdf_file = Inl e"
  then show "extract_text_from_pdf L uploaded_file = ([], [''Error reading PDF: '' @ e])"
    by (simp add: extract_text_from_pdf_def pdf_error_def)
next
  assume "uploaded_file = Inr pdf_file
    \<and> fitz_open L pdf_file = Inr (map Inr texts @ Inl e # rest, closing)"
  then show "extract_text_from_pdf L uploaded_file = ([], [''Error reading PDF: '' @ e])"
    by (simp add: extract_text_from_pdf_def pdf_error_def page_loop_first_failure)
next
  assume "uploaded_file = Inr pdf_file \<and> fitz_open L pdf_file = Inr (map Inr texts, Some e)"
  then show "extract_text_from_pdf L uploaded_file = ([], [''Error reading PDF: '' @ e])"
    by (simp add: extract_text_from_pdf_def pdf_error_def page_loop_concat)
next
  assume "uploaded_file = Inr pdf_file \<and> fitz_open L pdf_file = Inr (map Inr texts, None)"
  then show "extract_text_from_pdf L uploaded_file
      = (strip (isspace L) (re_sub_runs (isspace L) (concat texts)), [])"
    by (simp add: extract_text_from_pdf_def page_loop_concat)
next
  assume "uploaded_file = Inr pdf_file \<and> fitz_open L pdf_file = Inr (map Inr texts, None)
    \<and> concat texts = []"
  then have upload: "uploaded_file = Inr pdf_file"
    and opened: "fitz_open L pdf_file = Inr (map Inr texts, None)"
    and no_text: "concat texts = []"
    by blast+
  from no_text have "page_loop (map Inr texts) [] = Inr []"
    by (simp only: page_loop_concat append_Nil)
  with upload opened show "extract_text_from_pdf L uploaded_file = ([], [])"
    by (simp add: extract_text_from_pdf_def strip_Nil re_sub_runs_Nil)
qed

text \<open>
  The six cases on the stand-in: a read that raises; an empty stream, which cannot be
  opened; a document whose second page raises; a document whose \<open>close()\<close> raises;
  a document with the pages \<open>a \<close> and \<open> b\<close> (with two spaces between the letters);
  and a document whose only page is empty.
\<close>

theorem extract_text_outcomes_witness:
  "extract_text_from_pdf toy_lib (Inl ''stream closed'')
       = ([], [''Error reading PDF: '' @ ''stream closed''])
   \<and> fitz_open toy_lib [] = Inl ''cannot open empty document''
   \<and> extract_text_from_pdf toy_lib (Inr [])
       = ([], [''Error reading PDF: '' @ ''cannot open empty document''])
   \<and> extract_text_from_pdf
         (doc_lib (map Inr [[97]] @ Inl ''cannot read page'' # [Inl ''not reached''], None))
         (Inr [37])
       = ([], [''Error reading PDF: '' @ ''cannot read page''])
   \<and> extract_text_from_pdf (doc_lib (map Inr [[97]], Some ''cannot close'')) (Inr [37])
       = ([], [''Error reading PDF: '' @ ''cannot close''])
   \<and> extract_text_from_pdf (doc_lib (map Inr [[97, 32], [10, 98]], None)) (Inr [37])
       = ([97, 32, 98], [])
   \<and> fitz_open toy_lib [37] = Inr (map Inr [[]], None)
   \<and> extract_text_from_pdf toy_lib (Inr [37]) = ([], [])"
proof -
  note outcomes = extract_text_outcomes
  have a: "extract_text_from_pdf toy_lib (Inl ''stream closed'')
       = ([], [''Error reading PDF: '' @ ''stream closed''])"
    using outcomes [where L = toy_lib and uploaded_file = "Inl ''stream closed''"
        and e = "''stream closed''"]
    by blast
  have b: "extract_text_from_pdf toy_lib (Inr [])
       = ([], [''Error reading PDF: '' @ ''cannot open empty document''])"
    using outcomes [where L = toy_lib and uploaded_file = "Inr []" and pdf_file = "[]"
        and e = "''cannot open empty document''"] toy_open_empty
    by blast
  have c: "extract_text_from_pdf
         (doc_lib (map Inr [[97]] @ Inl ''cannot read page'' # [Inl ''not reached''], None))
         (Inr [37])
       = ([], [''Error reading PDF: '' @ ''cannot read page''])"
    using outcomes [where uploaded_file = "Inr [37]" and pdf_file = "[37]"
        and L = "doc_lib (map Inr [[97]] @ Inl ''cannot read page'' # [Inl ''not reached''], None)"
        and texts = "[[97]]" and e = "''cannot read page''" and rest = "[Inl ''not reached'']"
        and closing = None]
      doc_lib_open
    by blast
  have d: "extract_text_from_pdf (doc_lib (map Inr [[97]], Some ''cannot close'')) (Inr [37])
       = ([], [''Error reading PDF: '' @ ''cannot close''])"
    using outcomes [where uploaded_file = "Inr [37]" and pdf_file = "[37]"
        and L = "doc_lib (map Inr [[97]], Some ''cannot close'')"
        and texts = "[[97]]" and e = "''cannot close''"]
      doc_lib_open
    by blast
  have "extract_text_from_pdf (doc_lib (map Inr [[97, 32], [10, 98]], None)) (Inr [37])
       = (strip (isspace (doc_lib (map Inr [[97, 32], [10, 98]], None)))
           (re_sub_runs (isspace (doc_lib (map Inr [[97, 32], [10, 98]], None)))
              (concat [[97, 32], [10, 98]])), [])"
    using outcomes [where uploaded_file = "Inr [37]" and pdf_file = "[37]"
        and L = "doc_lib (map Inr [[97, 32], [10, 98]], None)"
        and texts = "[[97, 32], [10, 98]]"]
      doc_lib_open
    by blast
  then have f: "extract_text_from_pdf (doc_lib (map Inr [[97, 32], [10, 98]], None)) (Inr [37])
       = ([97, 32, 98], [])"
    by (simp add: doc_lib_isspace strip_def re_sub_runs_def ascii_isspace_def)
  have g: "extract_text_from_pdf toy_lib (Inr [37]) = ([], [])"
    using outcomes [where L = toy_lib and uploaded_file = "Inr [37]" and pdf_file = "[37]"
        and texts = "[[]]"] toy_open_blank
    by (simp add: strip_Nil re_sub_runs_Nil)
  from a b c d f g toy_open_empty toy_open_blank show ?thesis
    by blast
qed

text \<open>
  The claim as stated has the failure raise an error that the caller can tell from the
  empty result of a document without text. On a stream that cannot be opened and on a
  document whose only page is empty the function returns the same value, the empty string.
\<close>

theorem extract_failure_returns_empty_string:
  "fitz_open toy_lib [] = Inl ''cannot open empty document''
   \<and> fitz_open toy_lib [37] = Inr ([Inr []], None)
   \<and> fst (extract_text_from_pdf toy_lib (Inr [])) = []
   \<and> fst (extract_text_from_pdf toy_lib (Inr [37])) = []"
  by (simp add: toy_lib_def toy_fitz_open_def extract_text_from_pdf_def pdf_error_def
      strip_Nil re_sub_runs_Nil)

section \<open>C4: the ATS score\<close>

text \<open>
  Claim C4. For every resume text and job description, \<open>calculate_ats_score\<close> returns
  \<open>min(100, round(m / n * 100))\<close>, where \<open>n\<close> is the number of whitespace-separated
  tokens of the lowercased job description that are longer than 4 characters, repeated
  tokens counted as often as they occur, and \<open>m\<close> is the number of those tokens that
  are substrings of the lowercased resume text; the quotient, the product and
  \<open>round\<close> are Python's (binary64, ties to even). For \<open>n = 0\<close> the score is 0. The
  function raises no error, and the score lies between 0 and 100.
\<close>

theorem ats_score_formula:
  "(let tokens = split (isspace L) (str_lower L job_desc);
        long_tokens = filter (\<lambda>word. 4 < length word) tokens;
        n = length long_tokens;
        m = length (filter (\<lambda>k. str_contains (str_lower L resume_text) k) long_tokens)
    in calculate_ats_score L resume_text job_desc = Inr (ats_of_counts m n)
       \<and> (n = 0 \<longrightarrow> calculate_ats_score L resume_text job_desc = Inr 0)
       \<and> 0 \<le> ats_of_counts m n \<and> ats_of_counts m n \<le> 100)"
proof -
  have zero: "ats_of_counts m 0 = 0" for m
    by (simp add: ats_of_counts_def ats_unclamped_def)
  have lower: "0 \<le> ats_of_counts m n" for m n
    using ats_unclamped_nonneg [of m n] by (simp add: ats_of_counts_def)
  have upper: "ats_of_counts m n \<le> 100" for m n
    by (simp add: ats_of_counts_def)
  have score: "calculate_ats_score L resume_text job_desc =
     Inr (ats_of_counts
           (length (filter (\<lambda>k. str_contains (str_lower L resume_text) k)
              (filter (\<lambda>word. 4 < length word) (split (isspace L) (str_lower L job_desc)))))
           (length (filter (\<lambda>word. 4 < length word)
              (split (isspace L) (str_lower L job_desc)))))"
    using ats_score_counts [of L resume_text job_desc]
    by (simp only: matched_keywords_def keywords_of_def)
  show ?thesis
    unfolding Let_def using zero lower upper score by simp
qed

text \<open>
  On the stand-in: the job description \<open>a bc\<close> has no keyword and scores 0; of the
  three keywords of \<open>Python developer wanted\<close> the resume \<open>we use python daily\<close>
  contains one, and the score is 33.
\<close>

theorem ats_score_formula_witness:
  "length (filter (\<lambda>word. 4 < length word) (split (isspace toy_lib) (str_lower toy_lib [97, 32, 98, 99]))) = 0
   \<and> calculate_ats_score toy_lib [120] [97, 32, 98, 99] = Inr 0
   \<and> filter (\<lambda>word. 4 < length word) (split (isspace toy_lib) (str_lower toy_lib [80, 121, 116, 104, 111, 110, 32, 100, 101, 118, 101, 108, 111, 112, 101, 114, 32, 119, 97, 110, 116, 101, 100]))
       = [[112, 121, 116, 104, 111, 110], [100, 101, 118, 101, 108, 111, 112, 101, 114],
          [119, 97, 110, 116, 101, 100]]
   \<and> filter (\<lambda>k. str_contains (str_lower toy_lib [119, 101, 32, 117, 115, 101, 32, 112, 121, 116, 104, 111, 110, 32, 100, 97, 105, 108, 121]) k)
         (filter (\<lambda>word. 4 < length word) (split (isspace toy_lib) (str_lower toy_lib [80, 121, 116, 104, 111, 110, 32, 100, 101, 118, 101, 108, 111, 112, 101, 114, 32, 119, 97, 110, 116, 101, 100])))
       = [[112, 121, 116, 104, 111, 110]]
   \<and> calculate_ats_score toy_lib [119, 101, 32, 117, 115, 101, 32, 112, 121, 116, 104, 111, 110, 32, 100, 97, 105, 108, 121] [80, 121, 116, 104, 111, 110, 32, 100, 101, 118, 101, 108, 111, 112, 101, 114, 32, 119, 97, 110, 116, 101, 100] = Inr 33"
proof -
  have none: "length (filter (\<lambda>word. 4 < length word) (split (isspace toy_lib) (str_lower toy_lib [97, 32, 98, 99]))) = 0"
    by (simp add: toy_lib_def split_def ascii_isspace_def ascii_lower_def)
  have kws: "filter (\<lambda>word. 4 < length word) (split (isspace toy_lib) (str_lower toy_lib [80, 121, 116, 104, 111, 110, 32, 100, 101, 118, 101, 108, 111, 112, 101, 114, 32, 119, 97, 110, 116, 101, 100]))
       = [[112, 121, 116, 104, 111, 110], [100, 101, 118, 101, 108, 111, 112, 101, 114],
          [119, 97, 110, 116, 101, 100]]"
    by (simp add: toy_lib_def split_def ascii_isspace_def ascii_lower_def)
  have lowered: "str_lower toy_lib [119, 101, 32, 117, 115, 101, 32, 112, 121, 116, 104, 111, 110, 32, 100, 97, 105, 108, 121] = [119, 101, 32, 117, 115, 101, 32, 112, 121, 116, 104, 111, 110, 32, 100, 97, 105, 108, 121]"
    by (simp add: toy_lib_def ascii_lower_def)
  have found: "filter (\<lambda>k. str_contains (str_lower toy_lib [119, 101, 32, 117, 115, 101, 32, 112, 121, 116, 104, 111, 110, 32, 100, 97, 105, 108, 121]) k)
         [[112, 121, 116, 104, 111, 110], [100, 101, 118, 101, 108, 111, 112, 101, 114],
          [119, 97, 110, 116, 101, 100]]
       = [[112, 121, 116, 104, 111, 110]]"
    unfolding lowered by simp
  have zero: "calculate_ats_score toy_lib [120] [97, 32, 98, 99] = Inr 0"
    using ats_score_formula [where L = toy_lib and job_desc = "[97, 32, 98, 99]"
        and resume_text = "[120]"] none
    unfolding Let_def by blast
  have "calculate_ats_score toy_lib [119, 101, 32, 117, 115, 101, 32, 112, 121, 116, 104, 111, 110, 32, 100, 97, 105, 108, 121] [80, 121, 116, 104, 111, 110, 32, 100, 101, 118, 101, 108, 111, 112, 101, 114, 32, 119, 97, 110, 116, 101, 100]
      = Inr (ats_of_counts
           (length (filter (\<lambda>k. str_contains (str_lower toy_lib [119, 101, 32, 117, 115, 101, 32, 112, 121, 116, 104, 111, 110, 32, 100, 97, 105, 108, 121]) k)
              (filter (\<lambda>word. 4 < length word)
                 (split (isspace toy_lib) (str_lower toy_lib [80, 121, 116, 104, 111, 110, 32, 100, 101, 118, 101, 108, 111, 112, 101, 114, 32, 119, 97, 110, 116, 101, 100])))))
           (length (filter (\<lambda>word. 4 < length word)
              (split (isspace toy_lib) (str_lower toy_lib [80, 121, 116, 104, 111, 110, 32, 100, 101, 118, 101, 108, 111, 112, 101, 114, 32, 119, 97, 110, 116, 101, 100])))))"
    using ats_score_formula [where L = toy_lib and job_desc = "[80, 121, 116, 104, 111, 110, 32, 100, 101, 118, 101, 108, 111, 112, 101, 114, 32, 119, 97, 110, 116, 101, 100]"
        and resume_text = "[119, 101, 32, 117, 115, 101, 32, 112, 121, 116, 104, 111, 110, 32, 100, 97, 105, 108, 121]"]
    unfolding Let_def by blast
  then have "calculate_ats_score toy_lib [119, 101, 32, 117, 115, 101, 32, 112, 121, 116, 104, 111, 110, 32, 100, 97, 105, 108, 121] [80, 121, 116, 104, 111, 110, 32, 100, 101, 118, 101, 108, 111, 112, 101, 114, 32, 119, 97, 110, 116, 101, 100] = Inr (ats_of_counts 1 3)"
    unfolding kws found by (simp add: numeral_3_eq_3)
  then have third: "calculate_ats_score toy_lib [119, 101, 32, 117, 115, 101, 32, 112, 121, 116, 104, 111, 110, 32, 100, 97, 105, 108, 121] [80, 121, 116, 104, 111, 110, 32, 100, 101, 118, 101, 108, 111, 112, 101, 114, 32, 119, 97, 110, 116, 101, 100] = Inr 33"
    using ats_unclamped_1_3 by (simp add: ats_of_counts_def)
  from none zero kws found third show ?thesis
    by (simp only: simp_thms)
qed

section \<open>C5: the style score\<close>

text \<open>
  Claim C5. For every text, \<open>calculate_style_score\<close> is the step function of the
  number \<open>b\<close> of bullet-style markers (occurrences of the bullet character plus
  occurrences of a hyphen followed by a space): 100 for \<open>b \<ge> 10\<close>, 75 for
  \<open>5 \<le> b < 10\<close>, 50 for \<open>3 \<le> b < 5\<close> and 25 otherwise. So the score is one of
  25, 50, 75 and 100, and a text with at least as many markers as another never scores
  less.
\<close>

theorem style_score_steps:
  "calculate_style_score text = style_of_bullets (bullet_markers text)
   \<and> calculate_style_score text \<in> {25, 50, 75, 100}
   \<and> (bullet_markers text \<le> bullet_markers text'
        \<longrightarrow> calculate_style_score text \<le> calculate_style_score text')"
proof -
  have score: "calculate_style_score t = style_of_bullets (bullet_markers t)" for t
    by (simp add: calculate_style_score_def Let_def bullets_eq_markers style_of_bullets_def)
  have range: "style_of_bullets b \<in> {25, 50, 75, 100}" for b
    by (simp add: style_of_bullets_def)
  have mono: "style_of_bullets b \<le> style_of_bullets b'" if "b \<le> b'" for b b'
    using that by (simp add: style_of_bullets_def)
  show ?thesis
    using range [of "bullet_markers text"] mono [of "bullet_markers text" "bullet_markers text'"]
    by (simp only: score) blast
qed

theorem style_score_steps_witness:
  "calculate_style_score [45, 32, 120] = style_of_bullets (bullet_markers [45, 32, 120])
   \<and> calculate_style_score [45, 32, 120] \<in> {25, 50, 75, 100}
   \<and> bullet_markers [45, 32, 120] \<le> bullet_markers [45, 32, 8226, 120, 45, 32]
   \<and> calculate_style_score [45, 32, 120] \<le> calculate_style_score [45, 32, 8226, 120, 45, 32]"
proof -
  have le: "bullet_markers [45, 32, 120] \<le> bullet_markers [45, 32, 8226, 120, 45, 32]"
    by (simp add: bullet_markers_def bullet_def dash_space_def)
  from style_score_steps [of "[45, 32, 120]" "[45, 32, 8226, 120, 45, 32]"] le
  show ?thesis
    by blast
qed

section \<open>C6: the preprocessor is idempotent\<close>

text \<open>
  Claim C6. \<open>preprocess_text\<close> (lowercase, replace every maximal run of non-word
  characters by one space, strip) is idempotent: for every string \<open>T\<close>,
  \<open>preprocess_text (preprocess_text T) = preprocess_text T\<close>. Of \<open>str.lower()\<close> the
  proof uses that its results consist of lowercased characters and that it leaves
  strings of lowercased characters, the space among them, unchanged; of the word
  characters and of whitespace it uses nothing.
\<close>

theorem preprocess_idempotent:
  assumes "lower_output_lowercased L" and "lower_keeps_lowercased L"
  shows "preprocess_text L (preprocess_text L T) = preprocess_text L T"
proof -
  define u where "u = preprocess_text L T"
  have "lowercased L c" if "c \<in> set u" for c
  proof -
    from that preprocess_chars have "c = 32 \<or> c \<in> set (str_lower L T)"
      unfolding u_def by blast
    with assms show ?thesis
      unfolding lower_output_lowercased_def lower_keeps_lowercased_def by blast
  qed
  with assms(2) have lower: "str_lower L u = u"
    unfolding lower_keeps_lowercased_def by blast
  have "run_free (\<lambda>c. \<not> isword L c) u"
    unfolding u_def by (rule preprocess_run_free)
  then have sub: "re_sub_runs (\<lambda>c. \<not> isword L c) u = u"
    unfolding re_sub_runs_def by (rule run_free_fixed)
  have "strip (isspace L) u = u"
    unfolding u_def preprocess_text_def by (rule strip_idem)
  with lower sub have "preprocess_text L u = u"
    by (simp add: preprocess_text_def)
  then show ?thesis
    unfolding u_def .
qed

theorem preprocess_idempotent_witness:
  "lower_output_lowercased toy_lib \<and> lower_keeps_lowercased toy_lib
   \<and> preprocess_text toy_lib (preprocess_text toy_lib [32, 72, 105, 44, 32, 32, 89, 111, 117, 33])
       = preprocess_text toy_lib [32, 72, 105, 44, 32, 32, 89, 111, 117, 33]"
  using preprocess_idempotent [OF toy_lower_output toy_lower_keeps]
    toy_lower_output toy_lower_keeps
  by blast

section \<open>C7: no similarity for an empty text\<close>

text \<open>
  Claim C7. For every resume text and job description, \<open>compare_resume_with_job\<close>
  preprocesses both texts; if either is empty after preprocessing it returns \<open>None\<close>
  as the similarity, with no matched and no missing skills, and consults neither the
  embedding model nor the cosine similarity. Otherwise the similarity is the cosine
  similarity of the embeddings of the two preprocessed texts, the resume prefixed
  with \<open>passage: \<close> and the job description with \<open>query: \<close>.
\<close>

theorem compare_empty_gives_none:
  "(preprocess_text L resume_text = [] \<or> preprocess_text L job_desc = []
      \<longrightarrow> compare_resume_with_job L resume_text job_desc skills_list = (None, [], []))
   \<and> (preprocess_text L resume_text \<noteq> [] \<and> preprocess_text L job_desc \<noteq> []
      \<longrightarrow> fst (compare_resume_with_job L resume_text job_desc skills_list)
          = Some (cos_sim L (encode L (py_str ''passage: '' @ preprocess_text L resume_text))
                            (encode L (py_str ''query: '' @ preprocess_text L job_desc))))"
  by (simp add: compare_resume_with_job_def Let_def split: prod.split)

theorem compare_empty_gives_none_witness:
  "(preprocess_text toy_lib [32, 33] = [] \<or> preprocess_text toy_lib [80, 121] = [])
   \<and> compare_resume_with_job toy_lib [32, 33] [80, 121] [[112, 121]] = (None, [], [])
   \<and> preprocess_text toy_lib [80, 121] \<noteq> []
   \<and> fst (compare_resume_with_job toy_lib [80, 121] [80, 121] [[112, 121]])
       = Some (cos_sim toy_lib (encode toy_lib (py_str ''passage: '' @ preprocess_text toy_lib [80, 121]))
                               (encode toy_lib (py_str ''query: '' @ preprocess_text toy_lib [80, 121])))"
proof -
  have blank: "preprocess_text toy_lib [32, 33] = [] \<or> preprocess_text toy_lib [80, 121] = []"
    by (simp add: toy_preprocess_blank)
  have word: "preprocess_text toy_lib [80, 121] \<noteq> []"
    by (simp add: toy_preprocess_word)
  from compare_empty_gives_none [of toy_lib "[32, 33]" "[80, 121]" "[[112, 121]]"] blank
  have a: "compare_resume_with_job toy_lib [32, 33] [80, 121] [[112, 121]] = (None, [], [])"
    by blast
  from compare_empty_gives_none [of toy_lib "[80, 121]" "[80, 121]" "[[112, 121]]"] word
  have b: "fst (compare_resume_with_job toy_lib [80, 121] [80, 121] [[112, 121]])
       = Some (cos_sim toy_lib (encode toy_lib (py_str ''passage: '' @ preprocess_text toy_lib [80, 121]))
                               (encode toy_lib (py_str ''query: '' @ preprocess_text toy_lib [80, 121])))"
    by blast
  from blank word a b show ?thesis
    by blast
qed

section \<open>C8: at most three issues\<close>

text \<open>
  Claim C8. For every text, \<open>check_formatting\<close> returns at most 3 issues, no issue
  twice, and each of them is the bullet-point suggestion, the ALL-CAPS warning or the
  long-line issue with the number of long lines.
\<close>

theorem check_formatting_at_most_three:
  "length (check_formatting L text) \<le> 3
   \<and> distinct (check_formatting L text)
   \<and> set (check_formatting L text)
       \<subseteq> {bullet_issue, caps_issue, long_issue (length (long_lines text))}"
proof -
  have "length (check_formatting L text) \<le> 3"
    by (simp add: check_formatting_def)
  moreover have "distinct (check_formatting L text)"
    by (simp add: check_formatting_def issue_distinct)
  moreover have "set (check_formatting L text)
       \<subseteq> {bullet_issue, caps_issue, long_issue (length (long_lines text))}"
    by (auto simp: check_formatting_def)
  ultimately show ?thesis
    by blast
qed

section \<open>C9: the shape of preprocessed text\<close>

text \<open>
  Claim C9, as amended. For every string, the result of \<open>preprocess_text\<close> consists
  of spaces and of word characters that \<open>str.lower()\<close> leaves unchanged, has no two
  adjacent spaces, and neither starts nor ends with whitespace. Of the libraries the
  proof uses that every character of a result of \<open>str.lower()\<close> is left unchanged by
  \<open>str.lower()\<close>, and that the space is not a word character.
\<close>

theorem preprocess_output_shape:
  assumes "lower_output_lowercased L" and "\<not> isword L 32"
  shows "(\<forall>c \<in> set (preprocess_text L T). c = 32 \<or> (isword L c \<and> str_lower L [c] = [c]))
    \<and> \<not> sublist [32, 32] (preprocess_text L T)
    \<and> (preprocess_text L T = []
        \<or> (\<not> isspace L (hd (preprocess_text L T)) \<and> \<not> isspace L (last (preprocess_text L T))))"
proof (intro conjI ballI)
  fix c
  assume "c \<in> set (preprocess_text L T)"
  then have "c = 32 \<or> (c \<in> set (str_lower L T) \<and> isword L c)"
    by (rule preprocess_chars)
  with assms(1) show "c = 32 \<or> (isword L c \<and> str_lower L [c] = [c])"
    unfolding lower_output_lowercased_def lowercased_def by blast
next
  from assms(2) show "\<not> sublist [32, 32] (preprocess_text L T)"
    by (rule run_free_no_double_space) (rule preprocess_run_free)
next
  show "preprocess_text L T = []
        \<or> (\<not> isspace L (hd (preprocess_text L T)) \<and> \<not> isspace L (last (preprocess_text L T)))"
    unfolding preprocess_text_def by (rule strip_ends)
qed

theorem preprocess_output_shape_witness:
  "lower_output_lowercased toy_lib \<and> \<not> isword toy_lib 32
   \<and> list_all (\<lambda>c. c = 32 \<or> (isword toy_lib c \<and> str_lower toy_lib [c] = [c]))
        (preprocess_text toy_lib [32, 72, 105, 44, 32, 32, 89, 111, 117, 33])
   \<and> \<not> sublist [32, 32] (preprocess_text toy_lib [32, 72, 105, 44, 32, 32, 89, 111, 117, 33])
   \<and> preprocess_text toy_lib [32, 72, 105, 44, 32, 32, 89, 111, 117, 33] \<noteq> []
   \<and> \<not> isspace toy_lib (hd (preprocess_text toy_lib [32, 72, 105, 44, 32, 32, 89, 111, 117, 33]))
   \<and> \<not> isspace toy_lib (last (preprocess_text toy_lib [32, 72, 105, 44, 32, 32, 89, 111, 117, 33]))"
proof -
  have nonempty: "preprocess_text toy_lib [32, 72, 105, 44, 32, 32, 89, 111, 117, 33] \<noteq> []"
    by (simp add: toy_preprocess_example)
  from preprocess_output_shape [OF toy_lower_output toy_space_not_word,
      of "[32, 72, 105, 44, 32, 32, 89, 111, 117, 33]"] nonempty
  show ?thesis
    using toy_lower_output toy_space_not_word by (simp add: list_all_iff)
qed

text \<open>
  The claim as stated has only lowercase word characters in the result. A capital
  letter without a lowercase form passes through: U+2102 is a word character and is
  uppercase for \<open>str.isupper()\<close>, \<open>str.lower()\<close> leaves it unchanged, and the
  preprocessor returns it as it is. The library of this example meets both hypotheses
  of the theorem.
\<close>

theorem preprocess_keeps_capital_without_lowercase:
  "preprocess_text capital_lib [8450] = [8450]
   \<and> isword capital_lib 8450
   \<and> str_isupper capital_lib [8450]
   \<and> str_lower capital_lib [8450] = [8450]
   \<and> lower_output_lowercased capital_lib
   \<and> \<not> isword capital_lib 32"
proof -
  have lower: "str_lower capital_lib = map ascii_lower"
    by (simp add: capital_lib_def toy_lib_def)
  have "lower_output_lowercased capital_lib"
    unfolding lower_output_lowercased_def lowercased_def lower
    by (simp add: ascii_lower_idem)
  moreover have "preprocess_text capital_lib [8450] = [8450]"
    by (simp add: preprocess_text_def capital_lib_def toy_lib_def strip_def re_sub_runs_def
        ascii_lower_def ascii_isspace_def)
  moreover have "isword capital_lib 8450" and "\<not> isword capital_lib 32"
    by (simp_all add: capital_lib_def ascii_isword_def)
  moreover have "str_isupper capital_lib [8450]"
    by (simp add: capital_lib_def capital_isupper_def)
  moreover have "str_lower capital_lib [8450] = [8450]"
    by (simp add: lower ascii_lower_def)
  ultimately show ?thesis
    by blast
qed

section \<open>C10: the clamp of the ATS score\<close>

text \<open>
  Claim C10. In \<open>calculate_ats_score\<close> the clamp \<open>min(100, \<cdot>)\<close> is redundant: for
  every resume text and job description the number of matched keywords is at most the
  number of keywords, and the function agrees with the variant that returns
  \<open>round(density * 100)\<close> without the clamp.
\<close>

theorem ats_clamp_redundant:
  "length (matched_keywords L text job_desc) \<le> length (keywords_of L job_desc)
   \<and> calculate_ats_score L text job_desc = calculate_ats_score_unclamped L text job_desc"
proof -
  have le: "length (matched_keywords L text job_desc) \<le> length (keywords_of L job_desc)"
    by (simp add: matched_keywords_def)
  from ats_unclamped_le_100 [OF le] show ?thesis
    using le by (simp add: ats_score_counts ats_unclamped_score_counts ats_of_counts_def)
qed

section \<open>The section score\<close>

lemma length_sections: "length sections = 6"
  by (simp add: sections_def)

lemma section_score_counts:
  "calculate_section_score L text = Inr (ats_unclamped (length (present_sections L text)) 6)"
proof -
  have "sum_list (map (\<lambda>sec. 1) (filter P xs)) = int (length (filter P xs))"
    for P :: "pystr \<Rightarrow> bool" and xs
    by (induction xs) simp_all
  then show ?thesis
    by (simp add: calculate_section_score_def present_sections_def length_sections
        int_truediv_def ats_unclamped_def float_100)
qed

text \<open>
  For every text, \<open>calculate_section_score\<close> raises nothing and returns
  \<open>round(k / 6 * 100)\<close> in Python's arithmetic, where \<open>k\<close> is the number of the six
  canonical section names that occur in the lowercased text: 0, 17, 33, 50, 67, 83 or
  100.
\<close>

theorem section_score_values:
  "calculate_section_score L text
     = Inr ([0, 17, 33, 50, 67, 83, 100] ! length (present_sections L text))
   \<and> length (present_sections L text) \<le> 6"
proof -
  define k where "k = length (present_sections L text)"
  have "k \<le> length sections"
    unfolding k_def present_sections_def by (rule length_filter_le)
  then have le: "k \<le> 6"
    by (simp add: length_sections)
  then consider "k = 0" | "k = 1" | "k = 2" | "k = 3" | "k = 4" | "k = 5" | "k = 6"
    by linarith
  then have "ats_unclamped k 6 = [0, 17, 33, 50, 67, 83, 100] ! k"
  proof cases
    case 1
    then show ?thesis
      by (simp add: ats_unclamped_def round_to_double_def round_half_even_def)
  next
    case 2
    then show ?thesis using ats_unclamped_1_6 by simp
  next
    case 3
    then show ?thesis using ats_unclamped_2_6 by simp
  next
    case 4
    then show ?thesis using ats_unclamped_3_6 by simp
  next
    case 5
    then show ?thesis using ats_unclamped_4_6 by simp
  next
    case 6
    then show ?thesis using ats_unclamped_5_6 by simp
  next
    case 7
    then show ?thesis using ats_unclamped_6_6 by simp
  qed
  with le show ?thesis
    unfolding k_def by (simp add: section_score_counts)
qed

end
